theory Spec2Isabelle
  imports Main "HOL-Library.Sublist"
begin

section \<open>Strings\<close>

text \<open>
  Source strings are modelled as \<^typ>\<open>string\<close>: a list of 8-bit characters, that is the
  Latin-1 range of the code units of a JavaScript string. The operations below are the
  methods of \<^verbatim>\<open>String.prototype\<close> the program calls, with the receiver as first argument.
\<close>

fun startsWith :: "string \<Rightarrow> string \<Rightarrow> bool" where
  "startsWith s [] = True"
| "startsWith [] (p # ps) = False"
| "startsWith (c # cs) (p # ps) = (c = p \<and> startsWith cs ps)"

fun includesStr :: "string \<Rightarrow> string \<Rightarrow> bool" where
  "includesStr [] p = (p = [])"
| "includesStr (c # cs) p = (startsWith (c # cs) p \<or> includesStr cs p)"

text \<open>
  \<^verbatim>\<open>String.prototype.trim\<close> removes WhiteSpace and LineTerminator code points from both
  ends; the regular-expression class \<^verbatim>\<open>\s\<close> is the same set. Within the 8-bit range these
  are TAB, LF, VT, FF, CR, SPACE and NBSP.
\<close>

definition isWhiteSpace :: "char \<Rightarrow> bool" where
  "isWhiteSpace c \<longleftrightarrow>
     c = CHR 0x09 \<or> c = CHR 0x0A \<or> c = CHR 0x0B \<or> c = CHR 0x0C \<or> c = CHR 0x0D \<or>
     c = CHR 0x20 \<or> c = CHR 0xA0"

definition trim :: "string \<Rightarrow> string" where
  "trim s = rev (dropWhile isWhiteSpace (rev (dropWhile isWhiteSpace s)))"

text \<open>\<^verbatim>\<open>s.replace(/\/+$/, '')\<close>: the maximal run of slashes at the end of the input is removed.\<close>

definition stripTrailingSlashes :: "string \<Rightarrow> string" where
  "stripTrailingSlashes s = rev (dropWhile (\<lambda>c. c = CHR ''/'') (rev s))"

text \<open>
  An optional string field (\<^verbatim>\<open>url?: string\<close>) is a \<^typ>\<open>string option\<close>. In a condition it
  counts as true when it is present and not empty; \<^verbatim>\<open>a || b\<close> takes \<^verbatim>\<open>b\<close> otherwise.
\<close>

fun truthy :: "string option \<Rightarrow> bool" where
  "truthy None = False"
| "truthy (Some s) = (s \<noteq> [])"

fun orElse :: "string option \<Rightarrow> string \<Rightarrow> string" where
  "orElse None d = d"
| "orElse (Some s) d = (if s = [] then d else s)"

fun orElseOpt :: "string option \<Rightarrow> string option \<Rightarrow> string option" where
  "orElseOpt None d = d"
| "orElseOpt (Some s) d = (if s = [] then d else Some s)"

section \<open>URL resolution\<close>

definition defaultBase :: string where
  "defaultBase = ''https://staging.joinsucceed.ai''"

definition isAbsoluteUrl :: "string \<Rightarrow> bool" where
  "isAbsoluteUrl url \<longleftrightarrow> startsWith url ''http://'' \<or> startsWith url ''https://''"

definition ensureLeadingSlash :: "string \<Rightarrow> string" where
  "ensureLeadingSlash url = (if startsWith url ''/'' then url else ''/'' @ url)"

text \<open>\<^verbatim>\<open>getFullUrl\<close>, the helper of \<^verbatim>\<open>generateStepCode\<close>; \<open>baseUrl\<close> is the optional parameter
  of the enclosing function.\<close>

definition getFullUrl :: "string option \<Rightarrow> string \<Rightarrow> string" where
  "getFullUrl baseUrl url =
     (if startsWith url ''http://'' \<or> startsWith url ''https://'' then url
      else
        let base = orElse baseUrl defaultBase;
            cleanBase = stripTrailingSlashes base;
            cleanUrl = (if startsWith url ''/'' then url else ''/'' @ url)
        in cleanBase @ cleanUrl)"

text \<open>The part of a saved test case that the live runner reads.\<close>

record SavedTestCase =
  tc_id :: string
  tc_steps :: "string list"
  tc_baseUrl :: "string option"
  tc_targetPageUrl :: "string option"

text \<open>\<^verbatim>\<open>resolveUrl\<close> of the live runner.\<close>

definition resolveUrl :: "'a SavedTestCase_scheme \<Rightarrow> string \<Rightarrow> string" where
  "resolveUrl testCase url =
     (if startsWith url ''http://'' \<or> startsWith url ''https://'' then url
      else
        let baseUrl = orElse (orElseOpt (tc_baseUrl testCase) (tc_targetPageUrl testCase)) defaultBase;
            cleanBase = stripTrailingSlashes baseUrl;
            cleanUrl = (if startsWith url ''/'' then url else ''/'' @ url)
        in cleanBase @ cleanUrl)"

section \<open>Text building\<close>

definition quoted :: "string \<Rightarrow> string" where
  "quoted s = [CHR 0x27] @ s @ [CHR 0x27]"

definition newline :: string where
  "newline = [CHR 0x0A]"

definition digitChar :: "nat \<Rightarrow> char" where
  "digitChar d = char_of (48 + d)"

text \<open>The decimal numeral of a non-negative integer, as a template literal prints it.\<close>

fun showNat :: "nat \<Rightarrow> string" where
  "showNat n = (if n < 10 then [digitChar n] else showNat (n div 10) @ [digitChar (n mod 10)])"

declare showNat.simps [simp del]

definition isLetter :: "char \<Rightarrow> bool" where
  "isLetter c \<longleftrightarrow>
     (let n = (of_char c :: nat) in (97 \<le> n \<and> n \<le> 122) \<or> (65 \<le> n \<and> n \<le> 90))"

definition isDigit :: "char \<Rightarrow> bool" where
  "isDigit c \<longleftrightarrow> (let n = (of_char c :: nat) in 48 \<le> n \<and> n \<le> 57)"

section \<open>Expected-result formatting\<close>

text \<open>The character classes of \<^verbatim>\<open>/^[a-zA-Z_$][a-zA-Z0-9_$]*\s*[!=<>]/\<close>.\<close>

definition isIdentStart :: "char \<Rightarrow> bool" where
  "isIdentStart c \<longleftrightarrow> isLetter c \<or> c = CHR ''_'' \<or> c = CHR ''$''"

definition isIdentPart :: "char \<Rightarrow> bool" where
  "isIdentPart c \<longleftrightarrow> isLetter c \<or> isDigit c \<or> c = CHR ''_'' \<or> c = CHR ''$''"

definition isCompareOp :: "char \<Rightarrow> bool" where
  "isCompareOp c \<longleftrightarrow> c = CHR ''!'' \<or> c = CHR ''='' \<or> c = CHR ''<'' \<or> c = CHR ''>''"

text \<open>
  The matcher for that expression, anchored at the start: one identifier-start character, the
  longest run of identifier characters, the longest run of white space, then an operator
  character. The three classes are disjoint, so backtracking finds no other match.
\<close>

definition matchesComparison :: "string \<Rightarrow> bool" where
  "matchesComparison s =
     (case s of
        [] \<Rightarrow> False
      | c # cs \<Rightarrow>
          isIdentStart c \<and>
          (case dropWhile isWhiteSpace (dropWhile isIdentPart cs) of
             [] \<Rightarrow> False
           | d # _ \<Rightarrow> isCompareOp d))"

text \<open>\<^verbatim>\<open>/^['"`]/\<close>\<close>

definition matchesStringLiteral :: "string \<Rightarrow> bool" where
  "matchesStringLiteral s =
     (case s of [] \<Rightarrow> False | c # _ \<Rightarrow> c = CHR 0x27 \<or> c = CHR 0x22 \<or> c = CHR 0x60)"

definition formatExpectedResult :: "string \<Rightarrow> string" where
  "formatExpectedResult expectedResult =
     (if expectedResult = [] \<or> trim expectedResult = [] then ''true''
      else
        let trimmed = trim expectedResult;
            isValidExpression =
              (startsWith trimmed ''true'' \<or>
               startsWith trimmed ''false'' \<or>
               startsWith trimmed ''page.'' \<or>
               startsWith trimmed ''driver.'' \<or>
               startsWith trimmed ''cy.'' \<or>
               startsWith trimmed ''await '' \<or>
               startsWith trimmed ''expect('' \<or>
               matchesComparison trimmed \<or>
               matchesStringLiteral trimmed)
        in if isValidExpression then trimmed else ''true'')"

text \<open>
  The reading of the three heuristics in words, to compare the matcher with: a recognised
  prefix; an identifier, optional white space and a comparison character; an opening quote.
\<close>

definition hasCodePrefix :: "string \<Rightarrow> bool" where
  "hasCodePrefix t \<longleftrightarrow>
     (\<exists>p \<in> set [''true'', ''false'', ''page.'', ''driver.'', ''cy.'', ''await '', ''expect(''].
        prefix p t)"

definition isComparison :: "string \<Rightarrow> bool" where
  "isComparison t \<longleftrightarrow>
     (\<exists>c ident ws op rest.
        t = c # ident @ ws @ op # rest \<and> isIdentStart c \<and>
        (\<forall>x \<in> set ident. isIdentPart x) \<and> (\<forall>x \<in> set ws. isWhiteSpace x) \<and> isCompareOp op)"

definition isStringLiteral :: "string \<Rightarrow> bool" where
  "isStringLiteral t \<longleftrightarrow> (\<exists>rest. t = CHR 0x27 # rest \<or> t = CHR 0x22 # rest \<or> t = CHR 0x60 # rest)"

definition looksLikeCode :: "string \<Rightarrow> bool" where
  "looksLikeCode t \<longleftrightarrow> hasCodePrefix t \<or> isComparison t \<or> isStringLiteral t"

section \<open>The step model\<close>

text \<open>
  \<^verbatim>\<open>interface TestStep\<close>. The \<^verbatim>\<open>type\<close> field is kept as the string it is at run time: steps
  are read back from serialised text, and both engines compare the field with string literals
  and have a branch for everything else.
\<close>

record TestStep =
  st_id :: string
  st_type :: string
  st_url :: "string option"
  st_selector :: "string option"
  st_value :: "string option"
  st_action :: "string option"
  st_description :: string
  st_method :: "string option"
  st_headers :: "string option"
  st_body :: "string option"
  st_expectedStatus :: "string option"

section \<open>The platform's JSON object\<close>

text \<open>
  \<^verbatim>\<open>JSON.parse\<close>, \<^verbatim>\<open>JSON.stringify\<close>, \<^verbatim>\<open>Object.keys\<close>, \<^verbatim>\<open>Array.isArray\<close> and the truth value
  of a parsed value belong to the JavaScript platform, not to the program. They are taken as
  parameters over a type \<open>'j\<close> of parsed values: \<open>js_parse\<close> gives \<open>None\<close> where
  \<^verbatim>\<open>JSON.parse\<close> throws a SyntaxError, and \<open>js_keyCount\<close> gives \<open>None\<close> where
  \<^verbatim>\<open>Object.keys\<close> throws a TypeError (on \<^verbatim>\<open>null\<close>).
\<close>

record 'j json_platform =
  js_parse :: "string \<Rightarrow> 'j option"
  js_stringify :: "'j \<Rightarrow> string"
  js_keyCount :: "'j \<Rightarrow> nat option"
  js_truthy :: "'j \<Rightarrow> bool"
  js_asArray :: "'j \<Rightarrow> 'j list option"

datatype js_error = SyntaxError | TypeError

section \<open>The per-step code generator\<close>

definition indent :: string where
  "indent = ''      ''"

text \<open>
  The locator expression of the Selenium branches. The source repeats this conditional
  expression in the click, fill, wait and verifyElement branches of both languages.
\<close>

definition byMethod :: "string \<Rightarrow> string" where
  "byMethod selector =
     (if startsWith selector ''#'' then ''By.id('' @ quoted (drop 1 selector) @ '')''
      else if startsWith selector ''.'' then ''By.className('' @ quoted (drop 1 selector) @ '')''
      else ''By.css('' @ quoted selector @ '')'')"

text \<open>
  \<open>elementVarName\<close>: from the step index when one is passed, else from the first eight
  alphanumeric characters of the step id, else from \<^verbatim>\<open>Math.random()\<close>, whose printed digits are
  the parameter \<open>rnd\<close>.
\<close>

definition elementVarName :: "string \<Rightarrow> 'a TestStep_scheme \<Rightarrow> nat option \<Rightarrow> string" where
  "elementVarName rnd step stepIndex =
     (case stepIndex of
        Some i \<Rightarrow> ''element'' @ showNat i
      | None \<Rightarrow>
          ''element'' @
          (if st_id step \<noteq> [] then take 8 (filter (\<lambda>c. isLetter c \<or> isDigit c) (st_id step))
           else rnd))"

text \<open>\<^verbatim>\<open>step.action || step.description\<close>\<close>

definition actionOrDescription :: "'a TestStep_scheme \<Rightarrow> string" where
  "actionOrDescription step = orElse (st_action step) (st_description step)"

text \<open>
  The Selenium branch; the TypeScript and the JavaScript branch of the source have the same
  text. \<open>None\<close> means that no condition of the chain held, and control reaches the last
  \<^verbatim>\<open>return\<close> of the function.
\<close>

definition seleniumStepCode ::
  "string \<Rightarrow> string option \<Rightarrow> 'a TestStep_scheme \<Rightarrow> string option" where
  "seleniumStepCode elementVar baseUrl step =
     (if st_type step = ''navigate'' \<and> truthy (st_url step) then
        Some (indent @ ''await driver.get('' @ quoted (getFullUrl baseUrl (the (st_url step))) @ '')'')
      else if st_type step = ''click'' \<and> truthy (st_selector step) then
        Some (indent @ ''await driver.findElement('' @ byMethod (the (st_selector step)) @ '').click()'')
      else if st_type step = ''fill'' \<and> truthy (st_selector step) \<and> truthy (st_value step) then
        Some (indent @ ''await driver.findElement('' @ byMethod (the (st_selector step)) @
              '').sendKeys('' @ quoted (the (st_value step)) @ '')'')
      else if st_type step = ''wait'' \<and> truthy (st_selector step) then
        Some (indent @ ''await driver.wait(until.elementLocated('' @
              byMethod (the (st_selector step)) @ ''), 10000)'')
      else if st_type step = ''waitForPageLoad'' then
        Some (indent @ ''await driver.wait(async () => await driver.executeScript('' @
              quoted ''return document.readyState'' @ '') === '' @ quoted ''complete'' @ '', 10000)'')
      else if st_type step = ''verifyElement'' \<and> truthy (st_selector step) then
        Some (indent @ ''const '' @ elementVar @ '' = await driver.findElement('' @
              byMethod (the (st_selector step)) @ '')'' @ newline @
              indent @ ''expect(await '' @ elementVar @ ''.isDisplayed()).to.be.true'')
      else if st_type step = ''assert'' \<and> (truthy (st_action step) \<or> st_description step \<noteq> []) then
        Some (indent @ ''expect('' @ actionOrDescription step @ '').to.be.true'')
      else if st_type step = ''custom'' \<and> (truthy (st_action step) \<or> st_description step \<noteq> []) then
        Some (indent @ actionOrDescription step)
      else None)"

definition playwrightStepCode :: "string option \<Rightarrow> 'a TestStep_scheme \<Rightarrow> string option" where
  "playwrightStepCode baseUrl step =
     (if st_type step = ''navigate'' \<and> truthy (st_url step) then
        Some (indent @ ''await page.goto('' @ quoted (getFullUrl baseUrl (the (st_url step))) @ '')'')
      else if st_type step = ''click'' \<and> truthy (st_selector step) then
        Some (indent @ ''await page.click('' @ quoted (the (st_selector step)) @ '')'')
      else if st_type step = ''fill'' \<and> truthy (st_selector step) \<and> truthy (st_value step) then
        Some (indent @ ''await page.fill('' @ quoted (the (st_selector step)) @ '', '' @
              quoted (the (st_value step)) @ '')'')
      else if st_type step = ''wait'' \<and> truthy (st_selector step) then
        Some (indent @ ''await page.waitForSelector('' @ quoted (the (st_selector step)) @ '')'')
      else if st_type step = ''waitForPageLoad'' then
        Some (indent @ ''await page.waitForLoadState('' @
              quoted (orElse (st_action step) (orElse (Some (st_description step)) ''networkidle'')) @ '')'')
      else if st_type step = ''verifyElement'' \<and> truthy (st_selector step) then
        Some (indent @ ''await expect(page.locator('' @ quoted (the (st_selector step)) @ '')).toBeVisible()'')
      else if st_type step = ''assert'' \<and> (truthy (st_action step) \<or> st_description step \<noteq> []) then
        Some (indent @ ''expect('' @ actionOrDescription step @ '').toBeTruthy()'')
      else if st_type step = ''custom'' \<and> (truthy (st_action step) \<or> st_description step \<noteq> []) then
        Some (indent @ actionOrDescription step)
      else None)"

definition cypressStepCode :: "string option \<Rightarrow> 'a TestStep_scheme \<Rightarrow> string option" where
  "cypressStepCode baseUrl step =
     (if st_type step = ''navigate'' \<and> truthy (st_url step) then
        Some (indent @ ''cy.visit('' @ quoted (getFullUrl baseUrl (the (st_url step))) @ '')'')
      else if st_type step = ''click'' \<and> truthy (st_selector step) then
        Some (indent @ ''cy.get('' @ quoted (the (st_selector step)) @ '').click()'')
      else if st_type step = ''fill'' \<and> truthy (st_selector step) \<and> truthy (st_value step) then
        Some (indent @ ''cy.get('' @ quoted (the (st_selector step)) @ '').type('' @
              quoted (the (st_value step)) @ '')'')
      else if st_type step = ''wait'' \<and> truthy (st_selector step) then
        Some (indent @ ''cy.get('' @ quoted (the (st_selector step)) @ '', { timeout: 10000 })'')
      else if st_type step = ''waitForPageLoad'' then
        Some (indent @ ''cy.wait(1000) // Wait for page load'')
      else if st_type step = ''verifyElement'' \<and> truthy (st_selector step) then
        Some (indent @ ''cy.get('' @ quoted (the (st_selector step)) @ '').should('' @
              quoted ''be.visible'' @ '')'')
      else if st_type step = ''assert'' \<and> (truthy (st_action step) \<or> st_description step \<noteq> []) then
        Some (indent @ ''expect('' @ actionOrDescription step @ '').to.be.true'')
      else if st_type step = ''custom'' \<and> (truthy (st_action step) \<or> st_description step \<noteq> []) then
        Some (indent @ actionOrDescription step)
      else None)"

text \<open>
  The \<^verbatim>\<open>api_call\<close> branch. \<open>headers\<close> is \<open>None\<close> for the literal \<^verbatim>\<open>{}\<close> (no keys) and
  \<open>body\<close> is \<open>None\<close> for the literal \<^verbatim>\<open>null\<close> (false in a condition).
\<close>

definition jestApiCallCode ::
  "('j, 'p) json_platform_scheme \<Rightarrow> string \<Rightarrow> string \<Rightarrow> 'j option \<Rightarrow> 'j option \<Rightarrow> string
     \<Rightarrow> js_error + string" where
  "jestApiCallCode J method url headers body expectedStatus =
     (let dbIndent = ''    '';
          code0 = dbIndent @ ''const response = await fetch('' @ quoted url @ '', {'' @ newline;
          code1 = code0 @ dbIndent @ ''  method: '' @ quoted method @ '','' @ newline
      in case (case headers of None \<Rightarrow> Some 0 | Some h \<Rightarrow> js_keyCount J h) of
           None \<Rightarrow> Inl TypeError
         | Some keyCount \<Rightarrow>
             let code2 = (if keyCount > 0
                          then code1 @ dbIndent @ ''  headers: '' @ js_stringify J (the headers) @ '','' @ newline
                          else code1);
                 code3 = (case body of
                            None \<Rightarrow> code2
                          | Some b \<Rightarrow>
                              if js_truthy J b
                              then code2 @ dbIndent @ ''  body: JSON.stringify('' @ js_stringify J b @ ''),'' @ newline
                              else code2);
                 code4 = code3 @ dbIndent @ ''})'' @ newline
             in Inr (code4 @ dbIndent @ ''expect(response.status).toBe('' @ expectedStatus @ '')''))"

definition apiCallCode ::
  "('j, 'p) json_platform_scheme \<Rightarrow> 'a TestStep_scheme \<Rightarrow> string \<Rightarrow> js_error + string" where
  "apiCallCode J step framework =
     (let method = orElse (st_method step) ''GET'';
          url = orElse (st_url step) []
      in case (if truthy (st_headers step)
               then map_option Some (js_parse J (the (st_headers step)))
               else Some None) of
           None \<Rightarrow> Inl SyntaxError
         | Some headers \<Rightarrow>
             (case (if truthy (st_body step)
                    then map_option Some (js_parse J (the (st_body step)))
                    else Some None) of
                None \<Rightarrow> Inl SyntaxError
              | Some body \<Rightarrow>
                  let expectedStatus = orElse (st_expectedStatus step) ''200''
                  in if framework = ''jest''
                     then jestApiCallCode J method url headers body expectedStatus
                     else Inr (''// API Call: '' @ method @ '' '' @ url)))"

text \<open>
  \<^verbatim>\<open>generateStepCode(step, framework, language = 'typescript', stepIndex?, baseUrl?)\<close>. A thrown
  exception is the \<open>Inl\<close> result.
\<close>

definition generateStepCode ::
  "('j, 'p) json_platform_scheme \<Rightarrow> string \<Rightarrow> 'a TestStep_scheme \<Rightarrow> string \<Rightarrow> string option
     \<Rightarrow> nat option \<Rightarrow> string option \<Rightarrow> js_error + string" where
  "generateStepCode J rnd step framework languageArg stepIndex baseUrl =
     (let language = (case languageArg of None \<Rightarrow> ''typescript'' | Some l \<Rightarrow> l);
          elementVar = elementVarName rnd step stepIndex
      in if st_type step = ''api_call'' then apiCallCode J step framework
         else
           case (if framework = ''selenium'' then
                   (if language = ''typescript'' then seleniumStepCode elementVar baseUrl step
                    else seleniumStepCode elementVar baseUrl step)
                 else if framework = ''playwright'' then playwrightStepCode baseUrl step
                 else if framework = ''cypress'' then cypressStepCode baseUrl step
                 else None) of
             Some code \<Rightarrow> Inr code
           | None \<Rightarrow> Inr (indent @ ''// '' @ st_description step))"

section \<open>A finite JSON platform for examples\<close>

text \<open>
  For evaluating the definitions on concrete inputs: parsed values as a datatype, and a
  platform given by a finite table of texts with their values. A text outside the table does
  not parse, so an example may only rely on a text being malformed when it really is.
\<close>

datatype json =
    JNull
  | JBool bool
  | JNumber int
  | JString string
  | JArray "json list"
  | JObject "(string \<times> json) list"

fun jsonKeyCount :: "json \<Rightarrow> nat option" where
  "jsonKeyCount JNull = None"
| "jsonKeyCount (JBool b) = Some 0"
| "jsonKeyCount (JNumber n) = Some 0"
| "jsonKeyCount (JString s) = Some (length s)"
| "jsonKeyCount (JArray xs) = Some (length xs)"
| "jsonKeyCount (JObject kvs) = Some (length kvs)"

fun jsonTruthy :: "json \<Rightarrow> bool" where
  "jsonTruthy JNull = False"
| "jsonTruthy (JBool b) = b"
| "jsonTruthy (JNumber n) = (n \<noteq> 0)"
| "jsonTruthy (JString s) = (s \<noteq> [])"
| "jsonTruthy (JArray xs) = True"
| "jsonTruthy (JObject kvs) = True"

fun jsonAsArray :: "json \<Rightarrow> json list option" where
  "jsonAsArray (JArray xs) = Some xs"
| "jsonAsArray v = None"

definition tablePlatform :: "(string \<times> json) list \<Rightarrow> json json_platform" where
  "tablePlatform tbl =
     \<lparr>js_parse = map_of tbl,
      js_stringify = (\<lambda>v. case find (\<lambda>kv. snd kv = v) tbl of Some kv \<Rightarrow> fst kv | None \<Rightarrow> ''null''),
      js_keyCount = jsonKeyCount,
      js_truthy = jsonTruthy,
      js_asArray = jsonAsArray\<rparr>"

section \<open>Loading the structured steps\<close>

text \<open>
  \<^verbatim>\<open>parseSteps\<close> of the live runner. The inner \<^verbatim>\<open>catch\<close> swallows the SyntaxError of
  \<^verbatim>\<open>JSON.parse\<close>, after which control reaches the \<^verbatim>\<open>return []\<close> below it. The elements
  of the parsed array are returned as they are (the source casts without checking).
\<close>

definition parseSteps :: "('j, 'p) json_platform_scheme \<Rightarrow> 'a SavedTestCase_scheme \<Rightarrow> 'j list" where
  "parseSteps J testCase =
     (case tc_steps testCase of
        [] \<Rightarrow> []
      | firstStep # _ \<Rightarrow>
          if startsWith firstStep ''['' \<or> startsWith firstStep ''{'' then
            (case js_parse J firstStep of
               None \<Rightarrow> []
             | Some parsed \<Rightarrow>
                 (case js_asArray J parsed of
                    Some elements \<Rightarrow> elements
                  | None \<Rightarrow> []))
          else [])"

text \<open>
  A fact of JSON that the platform is assumed to have: a text that begins with an opening
  brace parses, if at all, to an object, never to an array.
\<close>

definition braceTextIsNoArray :: "('j, 'p) json_platform_scheme \<Rightarrow> bool" where
  "braceTextIsNoArray J \<longleftrightarrow>
     (\<forall>s v. startsWith s ''{'' \<and> js_parse J s = Some v \<longrightarrow> js_asArray J v = None)"

section \<open>The live runner: data\<close>

datatype status = Pending | Running | Passed | Failed

text \<open>\<^verbatim>\<open>interface TestResult\<close>\<close>

record TestResult =
  r_step :: string
  r_status :: status
  r_message :: "string option"
  r_duration :: "int option"

text \<open>The body of the request to \<^verbatim>\<open>/api/test-executions\<close>.\<close>

record ExecutionRecord =
  x_testCaseId :: string
  x_status :: string
  x_startedAt :: string
  x_completedAt :: string
  x_durationMs :: int
  x_totalSteps :: nat
  x_passedSteps :: nat
  x_failedSteps :: nat
  x_errorMessage :: "string option"
  x_stepResults :: "TestResult list"

text \<open>A browser window is known by a handle.\<close>

type_synonym win = nat

text \<open>
  The component state held by \<^verbatim>\<open>useState\<close>. A render closes over the values of that render:
  \<^verbatim>\<open>runTest\<close> and the \<^verbatim>\<open>executeStep\<close> it calls read \<^verbatim>\<open>results\<close>, \<^verbatim>\<open>testWindow\<close> and
  \<^verbatim>\<open>error\<close> as they were when the run was started, while the setters act on the state proper.
\<close>

record ui_state =
  ui_isRunning :: bool
  ui_results :: "TestResult list"
  ui_currentStep :: int
  ui_testWindow :: "win option"
  ui_error :: "string option"

text \<open>What is done to the outside world, in order.\<close>

datatype origin = Setup | Step nat

datatype event =
    WindowOpened win
  | DocumentWritten win
  | LocationAssigned origin win string
  | Clicked origin win string
  | Filled origin win string string
  | Posted ExecutionRecord

text \<open>A caught value: \<^verbatim>\<open>err instanceof Error ? err.message : 'Unknown error'\<close>.\<close>

datatype thrown = ErrorObject string | OtherValue

fun thrownMessage :: "thrown \<Rightarrow> string" where
  "thrownMessage (ErrorObject m) = m"
| "thrownMessage OtherValue = ''Unknown error''"

text \<open>
  What the browser answers while one step runs. Reading \<^verbatim>\<open>closed\<close> may throw
  (\<open>closedFlag = None\<close>); reading or assigning \<^verbatim>\<open>location.href\<close> may throw;
  \<^verbatim>\<open>document.querySelector\<close> throws, finds nothing, or finds an element, whose
  \<^verbatim>\<open>offsetParent\<close> may be null and on which the action of the step may throw.
\<close>

record element =
  offsetParentNull :: bool
  actionThrows :: "thrown option"

datatype query = QueryThrows thrown | NoElement | Found element

record probe =
  closedFlag :: "bool option"
  hrefReadable :: bool
  hrefAssignable :: bool
  hrefReadableAfter :: bool
  querySelector :: "string \<Rightarrow> query"
  elapsed :: int

text \<open>What the browser and the clock answer during one run.\<close>

record world =
  w_open :: "win option"
  w_writeThrows :: "thrown option"
  w_upfrontAssign :: "thrown option"
  w_upfrontReadable :: bool
  w_probe :: "nat \<Rightarrow> probe"
  w_startedAt :: string
  w_completedAt :: string
  w_durationMs :: int

record step_outcome =
  success :: bool
  message :: string

definition ok :: "string \<Rightarrow> event list \<Rightarrow> step_outcome \<times> event list" where
  "ok m evs = (\<lparr>success = True, message = m\<rparr>, evs)"

definition fail :: "string \<Rightarrow> step_outcome \<times> event list" where
  "fail m = (\<lparr>success = False, message = m\<rparr>, [])"

section \<open>The live runner: one step\<close>

text \<open>The branches of the \<^verbatim>\<open>switch\<close> on \<^verbatim>\<open>step.type\<close>, one definition for each \<^verbatim>\<open>case\<close>.\<close>

definition navigateCase ::
  "probe \<Rightarrow> win option \<Rightarrow> 'a SavedTestCase_scheme \<Rightarrow> 'b TestStep_scheme \<Rightarrow> nat
     \<Rightarrow> step_outcome \<times> event list" where
  "navigateCase P testWindow testCase step stepIndex =
     (case testWindow of
        None \<Rightarrow> fail ''Test window is not available''
      | Some w \<Rightarrow>
          if truthy (st_url step) then
            let fullUrl = resolveUrl testCase (the (st_url step))
            in if hrefAssignable P then
                 if hrefReadableAfter P
                 then ok (''Navigated to '' @ fullUrl) [LocationAssigned (Step stepIndex) w fullUrl]
                 else ok (''Navigated to '' @ fullUrl @ '' (cross-origin - watch the test window)'')
                        [LocationAssigned (Step stepIndex) w fullUrl]
               else ok (''Navigation attempted to '' @ fullUrl @
                        '' (cross-origin - watch the test window to verify)'') []
          else fail ''No URL provided'')"

definition waitForPageLoadCase :: "bool \<Rightarrow> step_outcome \<times> event list" where
  "waitForPageLoadCase canAccessWindow =
     (if \<not> canAccessWindow
      then ok ''Waiting for page load (cross-origin - watch the test window)'' []
      else ok ''Page loaded'' [])"

definition waitCase :: "bool \<Rightarrow> 'b TestStep_scheme \<Rightarrow> step_outcome \<times> event list" where
  "waitCase canAccessWindow step =
     (if truthy (st_selector step) then
        if \<not> canAccessWindow
        then ok (''Waited for '' @ the (st_selector step) @ '' (cross-origin - watch the test window)'') []
        else ok (''Waited for '' @ the (st_selector step)) []
      else fail ''No selector provided'')"

definition clickCase ::
  "probe \<Rightarrow> win option \<Rightarrow> bool \<Rightarrow> 'b TestStep_scheme \<Rightarrow> nat \<Rightarrow> step_outcome \<times> event list" where
  "clickCase P testWindow canAccessWindow step stepIndex =
     (case testWindow of
        None \<Rightarrow> fail ''Test window is not available''
      | Some w \<Rightarrow>
          if truthy (st_selector step) then
            if \<not> canAccessWindow
            then fail ''Cannot access window (cross-origin). Please verify manually in the test window.''
            else
              (case querySelector P (the (st_selector step)) of
                 QueryThrows err \<Rightarrow> fail (''Error clicking: '' @ thrownMessage err)
               | NoElement \<Rightarrow> fail (''Element not found: '' @ the (st_selector step))
               | Found el \<Rightarrow>
                   (case actionThrows el of
                      Some err \<Rightarrow> fail (''Error clicking: '' @ thrownMessage err)
                    | None \<Rightarrow>
                        ok (''Clicked '' @ the (st_selector step))
                          [Clicked (Step stepIndex) w (the (st_selector step))]))
          else fail ''No selector provided'')"

definition fillCase ::
  "probe \<Rightarrow> win option \<Rightarrow> bool \<Rightarrow> 'b TestStep_scheme \<Rightarrow> nat \<Rightarrow> step_outcome \<times> event list" where
  "fillCase P testWindow canAccessWindow step stepIndex =
     (case testWindow of
        None \<Rightarrow> fail ''Test window is not available''
      | Some w \<Rightarrow>
          if truthy (st_selector step) \<and> truthy (st_value step) then
            if \<not> canAccessWindow
            then fail ''Cannot access window (cross-origin). Please fill manually in the test window.''
            else
              (case querySelector P (the (st_selector step)) of
                 QueryThrows err \<Rightarrow> fail (''Error filling: '' @ thrownMessage err)
               | NoElement \<Rightarrow> fail (''Element not found: '' @ the (st_selector step))
               | Found el \<Rightarrow>
                   (case actionThrows el of
                      Some err \<Rightarrow> fail (''Error filling: '' @ thrownMessage err)
                    | None \<Rightarrow>
                        ok (''Filled '' @ the (st_selector step) @ '' with '' @ the (st_value step))
                          [Filled (Step stepIndex) w (the (st_selector step)) (the (st_value step))]))
          else fail ''No selector or value provided'')"

definition verifyElementCase ::
  "probe \<Rightarrow> win option \<Rightarrow> bool \<Rightarrow> 'b TestStep_scheme \<Rightarrow> step_outcome \<times> event list" where
  "verifyElementCase P testWindow canAccessWindow step =
     (case testWindow of
        None \<Rightarrow> fail ''Test window is not available''
      | Some w \<Rightarrow>
          if truthy (st_selector step) then
            if \<not> canAccessWindow
            then fail ''Cannot verify element (cross-origin). Please verify manually in the test window.''
            else
              (case querySelector P (the (st_selector step)) of
                 QueryThrows err \<Rightarrow> fail (''Error verifying: '' @ thrownMessage err)
               | NoElement \<Rightarrow>
                   fail (''Element not found or not visible: '' @ the (st_selector step))
               | Found el \<Rightarrow>
                   if \<not> offsetParentNull el
                   then ok (''Element found and visible: '' @ the (st_selector step)) []
                   else fail (''Element not found or not visible: '' @ the (st_selector step)))
          else fail ''No selector provided'')"

definition assertCase :: "'b TestStep_scheme \<Rightarrow> step_outcome \<times> event list" where
  "assertCase step = ok (orElse (Some (st_description step)) ''Assertion passed'') []"

definition defaultCase :: "'b TestStep_scheme \<Rightarrow> step_outcome \<times> event list" where
  "defaultCase step = fail (''Unknown step type: '' @ st_type step)"

text \<open>
  \<^verbatim>\<open>executeStep\<close>. \<open>testWindow\<close> is the value of the state variable in the closure. The
  two outer \<^verbatim>\<open>catch\<close> blocks of the source (\<^verbatim>\<open>Navigation failed\<close>, \<^verbatim>\<open>Error executing step\<close>)
  guard statements that cannot throw and have no branch here.
\<close>

definition executeStep ::
  "probe \<Rightarrow> win option \<Rightarrow> 'a SavedTestCase_scheme \<Rightarrow> 'b TestStep_scheme \<Rightarrow> nat
     \<Rightarrow> step_outcome \<times> event list" where
  "executeStep P testWindow testCase step stepIndex =
     (if \<not> (st_type step = ''wait'' \<or> st_type step = ''waitForPageLoad'') \<and> testWindow = None
      then fail ''Test window is not available''
      else if \<not> (st_type step = ''wait'' \<or> st_type step = ''waitForPageLoad'') \<and>
              st_type step \<noteq> ''navigate'' \<and> closedFlag P = Some True
      then fail ''Test window was closed''
      else
        let canAccessWindow = (testWindow \<noteq> None \<and> hrefReadable P)
        in
          if st_type step = ''navigate'' then navigateCase P testWindow testCase step stepIndex
          else if st_type step = ''waitForPageLoad'' then waitForPageLoadCase canAccessWindow
          else if st_type step = ''wait'' then waitCase canAccessWindow step
          else if st_type step = ''click'' then clickCase P testWindow canAccessWindow step stepIndex
          else if st_type step = ''fill'' then fillCase P testWindow canAccessWindow step stepIndex
          else if st_type step = ''verifyElement'' then verifyElementCase P testWindow canAccessWindow step
          else if st_type step = ''assert'' then assertCase step
          else defaultCase step)"

section \<open>The live runner: the run\<close>

text \<open>\<^verbatim>\<open>xs.map((r, idx) => idx === i ? f(r) : r)\<close>\<close>

definition mapAt :: "nat \<Rightarrow> ('a \<Rightarrow> 'a) \<Rightarrow> 'a list \<Rightarrow> 'a list" where
  "mapAt i f xs = map (\<lambda>(idx, r). if idx = i then f r else r) (enumerate 0 xs)"

definition isCrossOriginWarning :: "string \<Rightarrow> bool" where
  "isCrossOriginWarning m \<longleftrightarrow>
     includesStr m ''cross-origin'' \<or> includesStr m ''watch the test window'' \<or>
     includesStr m ''manual verification''"

definition countStatus :: "status \<Rightarrow> TestResult list \<Rightarrow> nat" where
  "countStatus s rs = length (filter (\<lambda>r. r_status r = s) rs)"

definition isNavigateWithUrl :: "'a TestStep_scheme \<Rightarrow> bool" where
  "isNavigateWithUrl s \<longleftrightarrow> st_type s = ''navigate'' \<and> truthy (st_url s)"

datatype loop_exit = LoopCompleted | LoopAborted

text \<open>
  The \<^verbatim>\<open>for\<close> loop of \<^verbatim>\<open>runTest\<close>, from index \<open>i\<close>. \<open>c\<close> is the state the closure was made
  from, \<open>st\<close> the state proper, \<open>tr\<close> the events so far. The abort branch builds the request
  from \<^verbatim>\<open>results\<close> of the closure.
\<close>

function runSteps ::
  "world \<Rightarrow> 'a SavedTestCase_scheme \<Rightarrow> 'b TestStep_scheme list \<Rightarrow> ui_state \<Rightarrow> bool \<Rightarrow> nat
     \<Rightarrow> ui_state \<Rightarrow> event list \<Rightarrow> loop_exit \<times> ui_state \<times> event list" where
  "runSteps W testCase structuredSteps c skipFirstNavigate i st tr =
     (if i < length structuredSteps then
        if skipFirstNavigate \<and> i = 0 \<and> st_type (structuredSteps ! i) = ''navigate'' then
          runSteps W testCase structuredSteps c skipFirstNavigate (Suc i)
            (st\<lparr>ui_currentStep := int i,
                ui_results := mapAt i (\<lambda>r. r\<lparr>r_status := Passed,
                    r_message := Some (''Already navigated to '' @
                      resolveUrl testCase (orElse (st_url (structuredSteps ! i)) []))\<rparr>) (ui_results st)\<rparr>)
            tr
        else
          let st1 = st\<lparr>ui_currentStep := int i,
                       ui_results := mapAt i (\<lambda>r. r\<lparr>r_status := Running\<rparr>) (ui_results st)\<rparr>;
              step = structuredSteps ! i;
              (result, evs) = executeStep (w_probe W i) (ui_testWindow c) testCase step i;
              duration = elapsed (w_probe W i);
              st2 = st1\<lparr>ui_results := mapAt i (\<lambda>r. r\<lparr>r_status := (if success result then Passed else Failed),
                             r_message := Some (message result),
                             r_duration := Some duration\<rparr>) (ui_results st1)\<rparr>
          in
            if \<not> success result \<and> \<not> isCrossOriginWarning (message result) then
              let currentResults =
                    mapAt i (\<lambda>r. r\<lparr>r_status := (if success result then Passed else Failed),
                             r_message := Some (message result),
                             r_duration := Some duration\<rparr>) (ui_results c);
                  passedSteps = countStatus Passed currentResults;
                  failedSteps = countStatus Failed currentResults;
                  failure = ''Test failed at step '' @ showNat (i + 1) @ '': '' @ message result
              in (LoopAborted,
                  st2\<lparr>ui_error := Some failure, ui_isRunning := False\<rparr>,
                  tr @ evs @
                  [Posted \<lparr>x_testCaseId = tc_id testCase, x_status = ''failed'',
                           x_startedAt = w_startedAt W, x_completedAt = w_completedAt W,
                           x_durationMs = w_durationMs W,
                           x_totalSteps = length structuredSteps,
                           x_passedSteps = passedSteps, x_failedSteps = failedSteps,
                           x_errorMessage = Some failure,
                           x_stepResults = currentResults\<rparr>])
            else runSteps W testCase structuredSteps c skipFirstNavigate (Suc i) st2 (tr @ evs)
      else (LoopCompleted, st, tr))"
  by pat_completeness auto
termination
  by (relation "measure (\<lambda>(W, testCase, structuredSteps, c, skipFirstNavigate, i, st, tr).
        length structuredSteps - i)") auto

declare runSteps.simps [simp del]

text \<open>How a run ends: it returns, or an exception leaves \<^verbatim>\<open>runTest\<close> uncaught.\<close>

datatype ending = Returned | Uncaught thrown

text \<open>
  The end of \<^verbatim>\<open>runTest\<close>, after the loop. After an abort the function has returned from
  inside the loop. Otherwise the request is built from \<^verbatim>\<open>results\<close> and \<^verbatim>\<open>error\<close> of the
  closure; a rejected request is only logged.
\<close>

definition finishRun ::
  "world \<Rightarrow> 'a SavedTestCase_scheme \<Rightarrow> 'b TestStep_scheme list \<Rightarrow> ui_state
     \<Rightarrow> loop_exit \<times> ui_state \<times> event list \<Rightarrow> ending \<times> ui_state \<times> event list" where
  "finishRun W testCase structuredSteps c loopResult =
     (case loopResult of
        (LoopAborted, st, tr) \<Rightarrow> (Returned, st, tr)
      | (LoopCompleted, st, tr) \<Rightarrow>
          let passedSteps = countStatus Passed (ui_results c);
              failedSteps = countStatus Failed (ui_results c);
              finalStatus = (if failedSteps > 0 then ''failed'' else ''passed'')
          in (Returned,
              st\<lparr>ui_isRunning := False, ui_currentStep := - 1\<rparr>,
              tr @
              [Posted \<lparr>x_testCaseId = tc_id testCase, x_status = finalStatus,
                       x_startedAt = w_startedAt W,
                       x_completedAt = w_completedAt W,
                       x_durationMs = w_durationMs W,
                       x_totalSteps = length structuredSteps,
                       x_passedSteps = passedSteps,
                       x_failedSteps = failedSteps,
                       x_errorMessage = orElseOpt (ui_error c) None,
                       x_stepResults = ui_results c\<rparr>]))"

text \<open>
  \<^verbatim>\<open>runTest\<close>, started in the state \<open>c\<close>, which is also the state its closure reads.
  \<open>structuredSteps\<close> is the result of \<^verbatim>\<open>parseSteps\<close> with its elements read as steps.
\<close>

definition runTest ::
  "world \<Rightarrow> 'a SavedTestCase_scheme \<Rightarrow> 'b TestStep_scheme list \<Rightarrow> ui_state
     \<Rightarrow> ending \<times> ui_state \<times> event list" where
  "runTest W testCase structuredSteps c =
     (if length structuredSteps = 0 then
        (Returned,
         c\<lparr>ui_error := Some (''No structured test steps found. This test case may need to be '' @
                         ''edited to include step-by-step instructions.'')\<rparr>,
         [])
      else
        let st1 = c\<lparr>ui_isRunning := True, ui_error := None,
                    ui_results := map (\<lambda>step. \<lparr>r_step = orElse (Some (st_description step)) (st_type step),
                                            r_status = Pending, r_message = None,
                                            r_duration = None\<rparr>) structuredSteps\<rparr>
        in case w_open W of
             None \<Rightarrow>
               (Returned,
                st1\<lparr>ui_error := Some ''Failed to open test window. Please allow popups for this site.'',
                    ui_isRunning := False\<rparr>,
                [])
           | Some newWindow \<Rightarrow>
               let st2 = st1\<lparr>ui_testWindow := Some newWindow\<rparr>
               in case w_writeThrows W of
                    Some err \<Rightarrow> (Uncaught err, st2, [WindowOpened newWindow])
                  | None \<Rightarrow>
                      let tr2 = [WindowOpened newWindow, DocumentWritten newWindow]
                      in case find isNavigateWithUrl structuredSteps of
                           Some firstNavigateStep \<Rightarrow>
                             let fullUrl = resolveUrl testCase (the (st_url firstNavigateStep))
                             in (case w_upfrontAssign W of
                                   Some err \<Rightarrow>
                                     (Returned,
                                      st2\<lparr>ui_error := Some (''Failed to navigate: '' @ thrownMessage err),
                                          ui_isRunning := False\<rparr>,
                                      tr2)
                                 | None \<Rightarrow>
                                     let st3 = (if w_upfrontReadable W then st2
                                                else st2\<lparr>ui_error := Some (''Note: Test window navigated to a different origin. '' @
                                                       ''Some automated steps may require manual verification.'')\<rparr>)
                                     in finishRun W testCase structuredSteps c
                                          (runSteps W testCase structuredSteps c True 0 st3
                                             (tr2 @ [LocationAssigned Setup newWindow fullUrl])))
                         | None \<Rightarrow>
                             finishRun W testCase structuredSteps c
                               (runSteps W testCase structuredSteps c False 0 st2 tr2))"

section \<open>The live runner: notions for stating its properties\<close>

text \<open>The outcome and the events of the call of \<^verbatim>\<open>executeStep\<close> that the loop makes at index \<open>i\<close>.\<close>

definition stepOutcome ::
  "world \<Rightarrow> 'a SavedTestCase_scheme \<Rightarrow> 'b TestStep_scheme list \<Rightarrow> ui_state \<Rightarrow> nat \<Rightarrow> step_outcome" where
  "stepOutcome W testCase structuredSteps c i =
     fst (executeStep (w_probe W i) (ui_testWindow c) testCase (structuredSteps ! i) i)"

definition stepEvents ::
  "world \<Rightarrow> 'a SavedTestCase_scheme \<Rightarrow> 'b TestStep_scheme list \<Rightarrow> ui_state \<Rightarrow> nat \<Rightarrow> event list" where
  "stepEvents W testCase structuredSteps c i =
     snd (executeStep (w_probe W i) (ui_testWindow c) testCase (structuredSteps ! i) i)"

text \<open>A failure that ends the run: not successful, and no cross-origin wording in its message.\<close>

definition fatal :: "step_outcome \<Rightarrow> bool" where
  "fatal r \<longleftrightarrow> \<not> success r \<and> \<not> isCrossOriginWarning (message r)"

text \<open>The loop passes over index \<open>i\<close> without calling \<^verbatim>\<open>executeStep\<close>.\<close>

definition skipsAt :: "bool \<Rightarrow> 'b TestStep_scheme list \<Rightarrow> nat \<Rightarrow> bool" where
  "skipsAt skipFirstNavigate structuredSteps i \<longleftrightarrow>
     skipFirstNavigate \<and> i = 0 \<and> st_type (structuredSteps ! i) = ''navigate''"

text \<open>The loop gets as far as index \<open>i\<close>: no earlier step that was executed ended the run.\<close>

definition reaches ::
  "world \<Rightarrow> 'a SavedTestCase_scheme \<Rightarrow> 'b TestStep_scheme list \<Rightarrow> ui_state \<Rightarrow> bool \<Rightarrow> nat \<Rightarrow> bool" where
  "reaches W testCase structuredSteps c skipFirstNavigate i \<longleftrightarrow>
     (\<forall>j < i. skipsAt skipFirstNavigate structuredSteps j \<or>
              \<not> fatal (stepOutcome W testCase structuredSteps c j))"

text \<open>The run gets as far as the loop; the value of \<^verbatim>\<open>skipFirstNavigate\<close> there.\<close>

definition entersLoop :: "world \<Rightarrow> 'b TestStep_scheme list \<Rightarrow> bool" where
  "entersLoop W structuredSteps \<longleftrightarrow>
     structuredSteps \<noteq> [] \<and> w_open W \<noteq> None \<and> w_writeThrows W = None \<and>
     (find isNavigateWithUrl structuredSteps \<noteq> None \<longrightarrow> w_upfrontAssign W = None)"

definition skipFlag :: "'b TestStep_scheme list \<Rightarrow> bool" where
  "skipFlag structuredSteps \<longleftrightarrow> find isNavigateWithUrl structuredSteps \<noteq> None"

text \<open>The requests to the record store among the events, and the origins of the navigations.\<close>

fun posts :: "event list \<Rightarrow> ExecutionRecord list" where
  "posts [] = []"
| "posts (Posted r # es) = r # posts es"
| "posts (e # es) = posts es"

fun navigations :: "event list \<Rightarrow> origin list" where
  "navigations [] = []"
| "navigations (LocationAssigned og w u # es) = og # navigations es"
| "navigations (e # es) = navigations es"

text \<open>The three state changes of one iteration, and the request of the abort branch.\<close>

definition markSkipped ::
  "'a SavedTestCase_scheme \<Rightarrow> 'b TestStep_scheme list \<Rightarrow> nat \<Rightarrow> ui_state \<Rightarrow> ui_state" where
  "markSkipped testCase structuredSteps i st =
     st\<lparr>ui_currentStep := int i,
        ui_results := mapAt i (\<lambda>r. r\<lparr>r_status := Passed,
            r_message := Some (''Already navigated to '' @
              resolveUrl testCase (orElse (st_url (structuredSteps ! i)) []))\<rparr>) (ui_results st)\<rparr>"

definition recordOutcome :: "step_outcome \<Rightarrow> int \<Rightarrow> nat \<Rightarrow> ui_state \<Rightarrow> ui_state" where
  "recordOutcome result duration i st =
     st\<lparr>ui_currentStep := int i,
        ui_results := mapAt i (\<lambda>r. r\<lparr>r_status := (if success result then Passed else Failed),
                             r_message := Some (message result),
                             r_duration := Some duration\<rparr>)
                       (mapAt i (\<lambda>r. r\<lparr>r_status := Running\<rparr>) (ui_results st))\<rparr>"

definition abortMessage :: "step_outcome \<Rightarrow> nat \<Rightarrow> string" where
  "abortMessage result i = ''Test failed at step '' @ showNat (i + 1) @ '': '' @ message result"

definition abortRecord ::
  "world \<Rightarrow> 'a SavedTestCase_scheme \<Rightarrow> 'b TestStep_scheme list \<Rightarrow> ui_state \<Rightarrow> step_outcome \<Rightarrow> nat
     \<Rightarrow> ExecutionRecord" where
  "abortRecord W testCase structuredSteps c result i =
     (let currentResults =
            mapAt i (\<lambda>r. r\<lparr>r_status := (if success result then Passed else Failed),
                             r_message := Some (message result),
                             r_duration := Some (elapsed (w_probe W i))\<rparr>) (ui_results c)
      in \<lparr>x_testCaseId = tc_id testCase, x_status = ''failed'',
          x_startedAt = w_startedAt W, x_completedAt = w_completedAt W,
          x_durationMs = w_durationMs W,
          x_totalSteps = length structuredSteps,
          x_passedSteps = countStatus Passed currentResults,
          x_failedSteps = countStatus Failed currentResults,
          x_errorMessage = Some (abortMessage result i),
          x_stepResults = currentResults\<rparr>)"

text \<open>The state and the trace with which a run enters the loop.\<close>

definition pendingResults :: "'b TestStep_scheme list \<Rightarrow> TestResult list" where
  "pendingResults structuredSteps =
     map (\<lambda>step. \<lparr>r_step = orElse (Some (st_description step)) (st_type step),
                  r_status = Pending, r_message = None, r_duration = None\<rparr>) structuredSteps"

definition loopState :: "world \<Rightarrow> 'b TestStep_scheme list \<Rightarrow> ui_state \<Rightarrow> ui_state" where
  "loopState W structuredSteps c =
     (let st2 = c\<lparr>ui_isRunning := True, ui_error := None,
                   ui_results := pendingResults structuredSteps,
                   ui_testWindow := w_open W\<rparr>
      in if skipFlag structuredSteps \<and> \<not> w_upfrontReadable W
         then st2\<lparr>ui_error := Some (''Note: Test window navigated to a different origin. '' @
                                   ''Some automated steps may require manual verification.'')\<rparr>
         else st2)"

definition loopTrace :: "world \<Rightarrow> 'a SavedTestCase_scheme \<Rightarrow> 'b TestStep_scheme list \<Rightarrow> event list" where
  "loopTrace W testCase structuredSteps =
     [WindowOpened (the (w_open W)), DocumentWritten (the (w_open W))] @
     (case find isNavigateWithUrl structuredSteps of
        Some firstNavigateStep \<Rightarrow>
          [LocationAssigned Setup (the (w_open W)) (resolveUrl testCase (the (st_url firstNavigateStep)))]
      | None \<Rightarrow> [])"

section \<open>Concrete inputs\<close>

text \<open>The state of a newly mounted component: the initial values of its \<^verbatim>\<open>useState\<close> calls.\<close>

definition freshState :: ui_state where
  "freshState =
     \<lparr>ui_isRunning = False, ui_results = [], ui_currentStep = - 1, ui_testWindow = None,
      ui_error = None\<rparr>"

definition exampleCase :: SavedTestCase where
  "exampleCase =
     \<lparr>tc_id = ''tc-1'', tc_steps = [], tc_baseUrl = Some ''http://localhost:3000'',
      tc_targetPageUrl = None\<rparr>"

text \<open>A step with the given id, type, url, selector, value and description.\<close>

definition mkStep ::
  "string \<Rightarrow> string \<Rightarrow> string option \<Rightarrow> string option \<Rightarrow> string option \<Rightarrow> string \<Rightarrow> TestStep" where
  "mkStep i t u s v d =
     \<lparr>st_id = i, st_type = t, st_url = u, st_selector = s, st_value = v, st_action = None,
      st_description = d, st_method = None, st_headers = None, st_body = None,
      st_expectedStatus = None\<rparr>"

text \<open>
  Three answers of the browser: a page of the runner's own origin on which every selector
  finds a visible element; a page of another origin; a window that the user has closed.
\<close>

definition ownPage :: probe where
  "ownPage =
     \<lparr>closedFlag = Some False, hrefReadable = True, hrefAssignable = True,
      hrefReadableAfter = True,
      querySelector = (\<lambda>sel. Found \<lparr>offsetParentNull = False, actionThrows = None\<rparr>),
      elapsed = 512\<rparr>"

definition foreignPage :: probe where
  "foreignPage =
     \<lparr>closedFlag = Some False, hrefReadable = False, hrefAssignable = True,
      hrefReadableAfter = False,
      querySelector = (\<lambda>sel. QueryThrows (ErrorObject ''SecurityError'')),
      elapsed = 3\<rparr>"

definition closedWindow :: probe where
  "closedWindow =
     \<lparr>closedFlag = Some True, hrefReadable = False, hrefAssignable = False,
      hrefReadableAfter = False,
      querySelector = (\<lambda>sel. QueryThrows (ErrorObject ''SecurityError'')),
      elapsed = 1\<rparr>"

text \<open>A world in which window 1 opens and takes the first navigation.\<close>

definition exampleWorld :: "(nat \<Rightarrow> probe) \<Rightarrow> bool \<Rightarrow> world" where
  "exampleWorld probes readable =
     \<lparr>w_open = Some 1, w_writeThrows = None, w_upfrontAssign = None,
      w_upfrontReadable = readable, w_probe = probes,
      w_startedAt = ''2024-05-01T10:00:00.000Z'', w_completedAt = ''2024-05-01T10:00:09.000Z'',
      w_durationMs = 9000\<rparr>"

definition loginSteps :: "TestStep list" where
  "loginSteps =
     [mkStep ''1'' ''navigate'' (Some ''/login'') None None ''Open the login page'',
      mkStep ''2'' ''fill'' None (Some ''#email'') (Some ''a@b.com'') ''Type the address'',
      mkStep ''3'' ''click'' None (Some ''#submit'') None ''Submit'']"

definition clickSteps :: "TestStep list" where
  "clickSteps =
     [mkStep ''1'' ''click'' None (Some ''#accept'') None ''Accept'',
      mkStep ''2'' ''click'' None (Some ''#next'') None ''Next'',
      mkStep ''3'' ''click'' None (Some ''#finish'') None ''Finish'']"

definition lateNavigateSteps :: "TestStep list" where
  "lateNavigateSteps =
     [mkStep ''1'' ''waitForPageLoad'' None None None ''load'',
      mkStep ''2'' ''navigate'' (Some ''/dashboard'') None None ''Open the dashboard'']"

definition submitSteps :: "TestStep list" where
  "submitSteps =
     [mkStep ''1'' ''navigate'' (Some ''/login'') None None ''Open the login page'',
      mkStep ''2'' ''click'' None (Some ''#submit'') None ''Submit'']"

definition ownWorld :: world where
  "ownWorld = exampleWorld (\<lambda>i. ownPage) True"

definition foreignWorld :: world where
  "foreignWorld = exampleWorld (\<lambda>i. foreignPage) False"

text \<open>The page is of another origin while step 0 runs; then the user closes the window.\<close>

definition closingWorld :: world where
  "closingWorld = exampleWorld (\<lambda>i. if i = 0 then foreignPage else closedWindow) False"

text \<open>
  The state in which a second run starts: the one that the first run of a newly mounted
  component has left behind.
\<close>

definition afterFirstRun :: "world \<Rightarrow> TestStep list \<Rightarrow> ui_state" where
  "afterFirstRun W structuredSteps = fst (snd (runTest W exampleCase structuredSteps freshState))"

section \<open>Facts about strings\<close>

lemma startsWith_prefix: "startsWith s p \<longleftrightarrow> prefix p s"
  by (induction s p rule: startsWith.induct) auto

lemma startsWith_append: "startsWith s p \<Longrightarrow> startsWith (s @ t) p"
  by (simp add: startsWith_prefix prefix_def) auto

lemma stripTrailingSlashes_no_slash:
  "stripTrailingSlashes s = [] \<or> last (stripTrailingSlashes s) \<noteq> CHR ''/''"
proof (cases "dropWhile (\<lambda>c. c = CHR ''/'') (rev s)")
  case Nil
  then show ?thesis by (simp add: stripTrailingSlashes_def)
next
  case (Cons a as)
  then have "a \<noteq> CHR ''/''"
    using hd_dropWhile [of "\<lambda>c. c = CHR ''/''" "rev s"] by auto
  with Cons show ?thesis by (simp add: stripTrailingSlashes_def)
qed

lemma stripTrailingSlashes_decomp:
  "\<exists>k. s = stripTrailingSlashes s @ replicate k (CHR ''/'')"
proof -
  let ?P = "\<lambda>c. c = CHR ''/''"
  have "rev s = takeWhile ?P (rev s) @ dropWhile ?P (rev s)" by simp
  then have "s = rev (dropWhile ?P (rev s)) @ rev (takeWhile ?P (rev s))"
    by (metis rev_append rev_rev_ident)
  moreover have "rev (takeWhile ?P (rev s)) = replicate (length (takeWhile ?P (rev s))) (CHR ''/'')"
  proof -
    have "\<forall>c \<in> set (rev (takeWhile ?P (rev s))). c = CHR ''/''"
      by (auto dest: set_takeWhileD)
    then show ?thesis
      by (metis length_rev replicate_length_same)
  qed
  ultimately show ?thesis unfolding stripTrailingSlashes_def by metis
qed

lemma getFullUrl_resolveUrl:
  "resolveUrl testCase url = getFullUrl (orElseOpt (tc_baseUrl testCase) (tc_targetPageUrl testCase)) url"
  by (simp add: resolveUrl_def getFullUrl_def)

section \<open>Claims about URL resolution\<close>

text \<open>
  C7 (as amended). An absolute URL (one starting with \<^verbatim>\<open>http://\<close> or \<^verbatim>\<open>https://\<close>) is returned
  unchanged whatever the base is. For any other URL the result is the base, with all of its
  trailing slashes removed and no slash left at its end, followed by the path, to which one
  slash is prepended only when it does not already begin with one. The two resolvers of the
  program agree. Resolving an already resolved URL changes nothing whenever the stripped base
  begins with \<^verbatim>\<open>http://\<close> or \<^verbatim>\<open>https://\<close>, as the default base does.
\<close>

theorem url_resolution:
  "(isAbsoluteUrl url \<longrightarrow> getFullUrl baseUrl url = url) \<and>
   (\<not> isAbsoluteUrl url \<longrightarrow>
      getFullUrl baseUrl url
        = stripTrailingSlashes (orElse baseUrl defaultBase) @ ensureLeadingSlash url) \<and>
   (\<exists>k. orElse baseUrl defaultBase
        = stripTrailingSlashes (orElse baseUrl defaultBase) @ replicate k (CHR ''/'')) \<and>
   (stripTrailingSlashes (orElse baseUrl defaultBase) = [] \<or>
      last (stripTrailingSlashes (orElse baseUrl defaultBase)) \<noteq> CHR ''/'') \<and>
   startsWith (ensureLeadingSlash url) ''/'' \<and>
   (ensureLeadingSlash url = url \<or> ensureLeadingSlash url = CHR ''/'' # url) \<and>
   resolveUrl testCase url
     = getFullUrl (orElseOpt (tc_baseUrl testCase) (tc_targetPageUrl testCase)) url \<and>
   (isAbsoluteUrl (stripTrailingSlashes (orElse baseUrl defaultBase)) \<longrightarrow>
      getFullUrl baseUrl (getFullUrl baseUrl url) = getFullUrl baseUrl url)"
proof -
  define base where "base = orElse baseUrl defaultBase"
  have 1: "isAbsoluteUrl url \<longrightarrow> getFullUrl baseUrl url = url"
    by (simp add: getFullUrl_def isAbsoluteUrl_def)
  have 2: "\<not> isAbsoluteUrl url \<longrightarrow>
           getFullUrl baseUrl url = stripTrailingSlashes base @ ensureLeadingSlash url"
    by (simp add: getFullUrl_def isAbsoluteUrl_def ensureLeadingSlash_def base_def)
  have 3: "\<exists>k. base = stripTrailingSlashes base @ replicate k (CHR ''/'')"
    by (rule stripTrailingSlashes_decomp)
  have 4: "stripTrailingSlashes base = [] \<or> last (stripTrailingSlashes base) \<noteq> CHR ''/''"
    by (rule stripTrailingSlashes_no_slash)
  have 5: "startsWith (ensureLeadingSlash url) ''/''"
    by (simp add: ensureLeadingSlash_def)
  have 6: "ensureLeadingSlash url = url \<or> ensureLeadingSlash url = CHR ''/'' # url"
    by (simp add: ensureLeadingSlash_def)
  have 7: "resolveUrl testCase url
           = getFullUrl (orElseOpt (tc_baseUrl testCase) (tc_targetPageUrl testCase)) url"
    by (rule getFullUrl_resolveUrl)
  have 8: "getFullUrl baseUrl (getFullUrl baseUrl url) = getFullUrl baseUrl url"
    if abs: "isAbsoluteUrl (stripTrailingSlashes base)"
  proof (cases "isAbsoluteUrl url")
    case True
    then show ?thesis by (simp add: getFullUrl_def isAbsoluteUrl_def)
  next
    case False
    with 2 have r: "getFullUrl baseUrl url = stripTrailingSlashes base @ ensureLeadingSlash url"
      by simp
    from abs have "isAbsoluteUrl (stripTrailingSlashes base @ ensureLeadingSlash url)"
      unfolding isAbsoluteUrl_def by (auto intro: startsWith_append)
    with r have "isAbsoluteUrl (getFullUrl baseUrl url)" by simp
    then show ?thesis
      by (simp add: getFullUrl_def [of baseUrl "getFullUrl baseUrl url"] isAbsoluteUrl_def)
  qed
  from 1 2 3 4 5 6 7 8 show ?thesis unfolding base_def by blast
qed

theorem url_resolution_witness:
  "isAbsoluteUrl ''https://example.com/a'' \<and>
   getFullUrl (Some ''http://localhost:3000//'') ''https://example.com/a'' = ''https://example.com/a'' \<and>
   \<not> isAbsoluteUrl ''auth/login'' \<and>
   isAbsoluteUrl (stripTrailingSlashes (orElse (Some ''http://localhost:3000//'') defaultBase)) \<and>
   getFullUrl (Some ''http://localhost:3000//'') ''auth/login'' = ''http://localhost:3000/auth/login'' \<and>
   getFullUrl (Some ''http://localhost:3000//'') ''http://localhost:3000/auth/login''
     = ''http://localhost:3000/auth/login''"
  using url_resolution [of "''https://example.com/a''" "Some ''http://localhost:3000//''"
      "\<lparr>tc_id = ''t'', tc_steps = [], tc_baseUrl = None, tc_targetPageUrl = None\<rparr>"]
    url_resolution [of "''auth/login''" "Some ''http://localhost:3000//''"
      "\<lparr>tc_id = ''t'', tc_steps = [], tc_baseUrl = None, tc_targetPageUrl = None\<rparr>"]
  by (simp add: isAbsoluteUrl_def stripTrailingSlashes_def ensureLeadingSlash_def getFullUrl_def)

text \<open>
  C7 as stated fails: with the base \<^verbatim>\<open>localhost:3000\<close>, which has no scheme, the resolved URL is
  relative again, and resolving it once more prepends the base a second time.
\<close>

theorem url_resolution_not_idempotent:
  "getFullUrl (Some ''localhost:3000'') ''login'' = ''localhost:3000/login'' \<and>
   getFullUrl (Some ''localhost:3000'') (getFullUrl (Some ''localhost:3000'') ''login'')
     = ''localhost:3000/localhost:3000/login'' \<and>
   resolveUrl \<lparr>tc_id = ''t'', tc_steps = [], tc_baseUrl = Some ''localhost:3000'', tc_targetPageUrl = None\<rparr>
     (resolveUrl \<lparr>tc_id = ''t'', tc_steps = [], tc_baseUrl = Some ''localhost:3000'', tc_targetPageUrl = None\<rparr> ''login'')
     \<noteq> resolveUrl \<lparr>tc_id = ''t'', tc_steps = [], tc_baseUrl = Some ''localhost:3000'', tc_targetPageUrl = None\<rparr> ''login''"
  by (simp add: getFullUrl_def resolveUrl_def stripTrailingSlashes_def)


section \<open>Claims about expected-result formatting\<close>

lemma isWhiteSpace_not_ident: "isWhiteSpace c \<Longrightarrow> \<not> isIdentPart c"
  by (auto simp: isWhiteSpace_def isIdentPart_def isLetter_def isDigit_def)

lemma isCompareOp_not_ident: "isCompareOp c \<Longrightarrow> \<not> isIdentPart c"
  by (auto simp: isCompareOp_def isIdentPart_def isLetter_def isDigit_def)

lemma isCompareOp_not_ws: "isCompareOp c \<Longrightarrow> \<not> isWhiteSpace c"
  by (auto simp: isCompareOp_def isWhiteSpace_def)

lemma dropWhile_run:
  assumes "\<forall>x \<in> set xs. P x" and "\<not> P y"
  shows "dropWhile P (xs @ y # ys) = y # ys"
  using assms by (induction xs) auto

lemma dropWhile_ident_ws:
  assumes "\<forall>x \<in> set ident. isIdentPart x" and "\<forall>x \<in> set ws. isWhiteSpace x" and "isCompareOp op"
  shows "dropWhile isWhiteSpace (dropWhile isIdentPart (ident @ ws @ op # rest)) = op # rest"
proof (cases ws)
  case Nil
  with assms show ?thesis
    by (simp add: dropWhile_run isCompareOp_not_ident isCompareOp_not_ws)
next
  case (Cons w ws')
  with assms have "\<not> isIdentPart w" by (simp add: isWhiteSpace_not_ident)
  with assms Cons have "dropWhile isIdentPart (ident @ ws @ op # rest) = ws @ op # rest"
    using dropWhile_run [of ident isIdentPart w "ws' @ op # rest"] by simp
  with assms show ?thesis
    by (simp add: dropWhile_run isCompareOp_not_ws)
qed

lemma matchesComparison_iff: "matchesComparison t \<longleftrightarrow> isComparison t"
proof
  assume m: "matchesComparison t"
  then obtain c cs where t: "t = c # cs" and c: "isIdentStart c"
    by (auto simp: matchesComparison_def split: list.splits)
  define ident where "ident = takeWhile isIdentPart cs"
  define r1 where "r1 = dropWhile isIdentPart cs"
  define ws where "ws = takeWhile isWhiteSpace r1"
  from m t obtain op rest where r2: "dropWhile isWhiteSpace r1 = op # rest" and op: "isCompareOp op"
    by (auto simp: matchesComparison_def r1_def split: list.splits)
  have "cs = ident @ r1" by (simp add: ident_def r1_def)
  moreover have "r1 = ws @ op # rest" using r2 by (simp add: ws_def flip: r2)
  ultimately have "t = c # ident @ ws @ op # rest" using t by simp
  moreover have "\<forall>x \<in> set ident. isIdentPart x" by (auto simp: ident_def dest: set_takeWhileD)
  moreover have "\<forall>x \<in> set ws. isWhiteSpace x" by (auto simp: ws_def dest: set_takeWhileD)
  ultimately show "isComparison t" using c op unfolding isComparison_def by blast
next
  assume "isComparison t"
  then obtain c ident ws op rest where t: "t = c # ident @ ws @ op # rest" and c: "isIdentStart c"
    and i: "\<forall>x \<in> set ident. isIdentPart x" and w: "\<forall>x \<in> set ws. isWhiteSpace x"
    and op: "isCompareOp op"
    unfolding isComparison_def by blast
  from dropWhile_ident_ws [OF i w op] t c op show "matchesComparison t"
    by (simp add: matchesComparison_def)
qed

lemma matchesStringLiteral_iff: "matchesStringLiteral t \<longleftrightarrow> isStringLiteral t"
  by (cases t) (auto simp: matchesStringLiteral_def isStringLiteral_def)

lemma isValidExpression_iff:
  "startsWith t ''true'' \<or> startsWith t ''false'' \<or> startsWith t ''page.'' \<or>
   startsWith t ''driver.'' \<or> startsWith t ''cy.'' \<or> startsWith t ''await '' \<or>
   startsWith t ''expect('' \<or> matchesComparison t \<or> matchesStringLiteral t
   \<longleftrightarrow> looksLikeCode t"
  unfolding looksLikeCode_def hasCodePrefix_def matchesComparison_iff matchesStringLiteral_iff
    startsWith_prefix by simp

lemma looksLikeCode_nonempty: "looksLikeCode t \<Longrightarrow> t \<noteq> []"
  by (auto simp: looksLikeCode_def hasCodePrefix_def isComparison_def isStringLiteral_def)

text \<open>
  C8. The formatter never returns the empty text. When the trimmed input does not look like
  code (no recognised prefix, not a comparison, not a string literal), which includes the empty
  and the all-white-space input, it returns the literal \<^verbatim>\<open>true\<close>; otherwise it returns the
  trimmed input.
\<close>

theorem formatExpectedResult_spec:
  "formatExpectedResult e \<noteq> [] \<and>
   (\<not> looksLikeCode (trim e) \<longrightarrow> formatExpectedResult e = ''true'') \<and>
   (looksLikeCode (trim e) \<longrightarrow> formatExpectedResult e = trim e) \<and>
   (e = [] \<or> (\<forall>c \<in> set e. isWhiteSpace c) \<longrightarrow> formatExpectedResult e = ''true'')"
proof -
  have ws: "trim e = []" if "\<forall>c \<in> set e. isWhiteSpace c"
    using that by (auto simp: trim_def dest: set_dropWhileD)
  have e: "trim e = []" if "e = []" using that by (simp add: trim_def)
  have a: "\<not> looksLikeCode (trim e) \<longrightarrow> formatExpectedResult e = ''true''"
    by (simp add: formatExpectedResult_def Let_def isValidExpression_iff)
  have b: "looksLikeCode (trim e) \<longrightarrow> formatExpectedResult e = trim e"
    using looksLikeCode_nonempty [of "trim e"] e
    by (auto simp: formatExpectedResult_def Let_def isValidExpression_iff)
  have c: "formatExpectedResult e \<noteq> []"
    using a b looksLikeCode_nonempty [of "trim e"] by (cases "looksLikeCode (trim e)") auto
  have d: "e = [] \<or> (\<forall>c \<in> set e. isWhiteSpace c) \<longrightarrow> formatExpectedResult e = ''true''"
    using ws e by (auto simp: formatExpectedResult_def)
  from a b c d show ?thesis by blast
qed

theorem formatExpectedResult_spec_witness:
  "\<not> looksLikeCode (trim ''  User sees the dashboard '') \<and>
   formatExpectedResult ''  User sees the dashboard '' = ''true'' \<and>
   looksLikeCode (trim '' count >= 3 '') \<and>
   formatExpectedResult '' count >= 3 '' = ''count >= 3'' \<and>
   isWhiteSpace (CHR '' '') \<and>
   formatExpectedResult ''   '' = ''true''"
  using formatExpectedResult_spec [of "''  User sees the dashboard ''"]
    formatExpectedResult_spec [of "'' count >= 3 ''"]
    formatExpectedResult_spec [of "''   ''"]
  by (simp add: isValidExpression_iff [symmetric] trim_def isWhiteSpace_def matchesComparison_def
      matchesStringLiteral_def isIdentStart_def isIdentPart_def isLetter_def isDigit_def
      isCompareOp_def)

section \<open>Claims about the per-step code generator\<close>

lemma seleniumStepCode_selector:
  assumes "st_selector step = Some sel" and "sel \<noteq> []"
  shows "st_type step = ''click'' \<Longrightarrow>
           seleniumStepCode v b step = Some (indent @ ''await driver.findElement('' @ byMethod sel @ '').click()'')"
    and "st_type step = ''wait'' \<Longrightarrow>
           seleniumStepCode v b step
             = Some (indent @ ''await driver.wait(until.elementLocated('' @ byMethod sel @ ''), 10000)'')"
    and "st_type step = ''verifyElement'' \<Longrightarrow>
           seleniumStepCode v b step
             = Some (indent @ ''const '' @ v @ '' = await driver.findElement('' @ byMethod sel @ '')'' @
                     newline @ indent @ ''expect(await '' @ v @ ''.isDisplayed()).to.be.true'')"
    and "st_type step = ''fill'' \<Longrightarrow> st_value step = Some val \<Longrightarrow> val \<noteq> [] \<Longrightarrow>
           seleniumStepCode v b step
             = Some (indent @ ''await driver.findElement('' @ byMethod sel @ '').sendKeys('' @
                     quoted val @ '')'')"
  using assms by (simp_all add: seleniumStepCode_def)

text \<open>
  C6. The locator of a selector is a function of the selector text alone, defined for every
  text: a selector that starts with \<^verbatim>\<open>#\<close> becomes an id locator of the rest, one that starts
  with \<^verbatim>\<open>.\<close> a class locator of the rest, and every other text, the empty one included, a
  css locator of the whole text. The Selenium click translation, in either language, embeds
  exactly this locator.
\<close>

theorem selector_classification:
  "(\<forall>rest. selector = CHR ''#'' # rest \<longrightarrow> byMethod selector = ''By.id('' @ quoted rest @ '')'') \<and>
   (\<forall>rest. selector = CHR ''.'' # rest \<longrightarrow> byMethod selector = ''By.className('' @ quoted rest @ '')'') \<and>
   (\<not> (\<exists>rest. selector = CHR ''#'' # rest \<or> selector = CHR ''.'' # rest) \<longrightarrow>
      byMethod selector = ''By.css('' @ quoted selector @ '')'') \<and>
   (selector \<noteq> [] \<and> st_type step = ''click'' \<and> st_selector step = Some selector \<longrightarrow>
      generateStepCode J rnd step ''selenium'' language stepIndex baseUrl
        = Inr (indent @ ''await driver.findElement('' @ byMethod selector @ '').click()''))"
proof -
  have "\<not> (\<exists>rest. selector = CHR ''#'' # rest \<or> selector = CHR ''.'' # rest) \<longrightarrow>
      byMethod selector = ''By.css('' @ quoted selector @ '')''"
    by (cases selector) (auto simp: byMethod_def)
  moreover have "selector \<noteq> [] \<and> st_type step = ''click'' \<and> st_selector step = Some selector \<longrightarrow>
      generateStepCode J rnd step ''selenium'' language stepIndex baseUrl
        = Inr (indent @ ''await driver.findElement('' @ byMethod selector @ '').click()'')"
    by (auto simp: generateStepCode_def Let_def seleniumStepCode_selector(1))
  ultimately show ?thesis by (simp add: byMethod_def)
qed

theorem selector_classification_witness:
  "byMethod ''#email'' = ''By.id('' @ quoted ''email'' @ '')'' \<and>
   byMethod ''.btn'' = ''By.className('' @ quoted ''btn'' @ '')'' \<and>
   byMethod ''div > a.x#y'' = ''By.css('' @ quoted ''div > a.x#y'' @ '')'' \<and>
   generateStepCode (tablePlatform []) ''r''
       \<lparr>st_id = ''1'', st_type = ''click'', st_url = None, st_selector = Some ''#email'',
        st_value = None, st_action = None, st_description = ''Click'', st_method = None,
        st_headers = None, st_body = None, st_expectedStatus = None\<rparr>
       ''selenium'' (Some ''javascript'') (Some 0) None
     = Inr (indent @ ''await driver.findElement(By.id('' @ quoted ''email'' @ '')).click()'')"
  using selector_classification [of "''#email''"
      "\<lparr>st_id = ''1'', st_type = ''click'', st_url = None, st_selector = Some ''#email'',
        st_value = None, st_action = None, st_description = ''Click'', st_method = None,
        st_headers = None, st_body = None, st_expectedStatus = None\<rparr>"
      "tablePlatform []" "''r''" "Some ''javascript''" "Some 0" None]
    selector_classification [of "''.btn''"]
    selector_classification [of "''div > a.x#y''"]
  by (simp add: byMethod_def)

text \<open>
  C10. For every framework and language, an \<^verbatim>\<open>api_call\<close> step whose \<^verbatim>\<open>headers\<close> field, or
  whose \<^verbatim>\<open>body\<close> field, is a non-empty text that \<^verbatim>\<open>JSON.parse\<close> rejects makes the generator
  throw the SyntaxError; a step of any other type makes it return a text.
\<close>

theorem generateStepCode_api_call_throws:
  "(st_type step = ''api_call'' \<and> truthy (st_headers step) \<and>
      js_parse J (the (st_headers step)) = None \<longrightarrow>
      generateStepCode J rnd step framework language stepIndex baseUrl = Inl SyntaxError) \<and>
   (st_type step = ''api_call'' \<and> truthy (st_body step) \<and>
      js_parse J (the (st_body step)) = None \<longrightarrow>
      generateStepCode J rnd step framework language stepIndex baseUrl = Inl SyntaxError) \<and>
   (st_type step \<noteq> ''api_call'' \<longrightarrow>
      (\<exists>code. generateStepCode J rnd step framework language stepIndex baseUrl = Inr code))"
proof -
  have h: "generateStepCode J rnd step framework language stepIndex baseUrl = Inl SyntaxError"
    if "st_type step = ''api_call''" "truthy (st_headers step)"
      "js_parse J (the (st_headers step)) = None"
    using that by (simp add: generateStepCode_def apiCallCode_def)
  have b: "generateStepCode J rnd step framework language stepIndex baseUrl = Inl SyntaxError"
    if "st_type step = ''api_call''" "truthy (st_body step)"
      "js_parse J (the (st_body step)) = None"
    using that by (auto simp: generateStepCode_def apiCallCode_def Let_def split: option.splits)
  have o: "\<exists>code. generateStepCode J rnd step framework language stepIndex baseUrl = Inr code"
    if "st_type step \<noteq> ''api_call''"
    using that by (simp add: generateStepCode_def Let_def split: option.splits)
  from h b o show ?thesis by blast
qed

theorem generateStepCode_api_call_throws_witness:
  "generateStepCode (tablePlatform [(''{}'', JObject [])]) ''r''
       \<lparr>st_id = ''7'', st_type = ''api_call'', st_url = Some ''/api/ping'', st_selector = None,
        st_value = None, st_action = None, st_description = ''Ping'', st_method = Some ''POST'',
        st_headers = Some ''{Accept: json'', st_body = None, st_expectedStatus = None\<rparr>
       ''playwright'' (Some ''python'') None None = Inl SyntaxError \<and>
   generateStepCode (tablePlatform [(''{}'', JObject [])]) ''r''
       \<lparr>st_id = ''7'', st_type = ''api_call'', st_url = Some ''/api/ping'', st_selector = None,
        st_value = None, st_action = None, st_description = ''Ping'', st_method = Some ''POST'',
        st_headers = Some ''{}'', st_body = Some ''name=x'', st_expectedStatus = None\<rparr>
       ''jest'' None None None = Inl SyntaxError \<and>
   (\<exists>code. generateStepCode (tablePlatform [(''{}'', JObject [])]) ''r''
       \<lparr>st_id = ''7'', st_type = ''custom'', st_url = None, st_selector = None,
        st_value = None, st_action = None, st_description = ''Ping'', st_method = None,
        st_headers = Some ''{Accept: json'', st_body = None, st_expectedStatus = None\<rparr>
       ''jest'' None None None = Inr code)"
  using generateStepCode_api_call_throws [of
      "\<lparr>st_id = ''7'', st_type = ''api_call'', st_url = Some ''/api/ping'', st_selector = None,
        st_value = None, st_action = None, st_description = ''Ping'', st_method = Some ''POST'',
        st_headers = Some ''{Accept: json'', st_body = None, st_expectedStatus = None\<rparr>"
      "tablePlatform [(''{}'', JObject [])]" "''r''" "''playwright''" "Some ''python''" None None]
    generateStepCode_api_call_throws [of
      "\<lparr>st_id = ''7'', st_type = ''api_call'', st_url = Some ''/api/ping'', st_selector = None,
        st_value = None, st_action = None, st_description = ''Ping'', st_method = Some ''POST'',
        st_headers = Some ''{}'', st_body = Some ''name=x'', st_expectedStatus = None\<rparr>"
      "tablePlatform [(''{}'', JObject [])]" "''r''" "''jest''" None None None]
    generateStepCode_api_call_throws [of
      "\<lparr>st_id = ''7'', st_type = ''custom'', st_url = None, st_selector = None,
        st_value = None, st_action = None, st_description = ''Ping'', st_method = None,
        st_headers = Some ''{Accept: json'', st_body = None, st_expectedStatus = None\<rparr>"
      "tablePlatform [(''{}'', JObject [])]" "''r''" "''jest''" None None None]
  by (simp add: tablePlatform_def)

section \<open>Claims about loading the structured steps\<close>

text \<open>
  C9. The loader is total (every exception is caught inside it). On a non-empty list whose
  first string begins with \<^verbatim>\<open>[\<close> and parses to a JSON array it returns the elements of that
  array; in every other case (an empty list, another first character, a text that does not
  parse, a parsed value that is no array) it returns no structured steps.
\<close>

theorem parseSteps_dual_representation:
  assumes "braceTextIsNoArray J"
  shows "(\<forall>firstStep rest parsed elements.
            tc_steps testCase = firstStep # rest \<and> startsWith firstStep ''['' \<and>
            js_parse J firstStep = Some parsed \<and> js_asArray J parsed = Some elements \<longrightarrow>
            parseSteps J testCase = elements) \<and>
         (\<not> (\<exists>firstStep rest parsed elements.
            tc_steps testCase = firstStep # rest \<and> startsWith firstStep ''['' \<and>
            js_parse J firstStep = Some parsed \<and> js_asArray J parsed = Some elements) \<longrightarrow>
            parseSteps J testCase = [])"
proof (cases "tc_steps testCase")
  case Nil
  then show ?thesis by (simp add: parseSteps_def)
next
  case (Cons f rest)
  show ?thesis
  proof (cases "startsWith f ''[''")
    case True
    with Cons show ?thesis
      by (auto simp: parseSteps_def split: option.splits)
  next
    case False
    have "parseSteps J testCase = []"
    proof (cases "startsWith f ''{''")
      case brace: True
      show ?thesis
      proof (cases "js_parse J f")
        case None
        with Cons show ?thesis by (simp add: parseSteps_def)
      next
        case (Some v)
        with brace assms have "js_asArray J v = None"
          unfolding braceTextIsNoArray_def by blast
        with Cons Some brace show ?thesis by (simp add: parseSteps_def)
      qed
    next
      case False
      with Cons \<open>\<not> startsWith f ''[''\<close> show ?thesis by (simp add: parseSteps_def)
    qed
    with Cons False show ?thesis by auto
  qed
qed

theorem parseSteps_dual_representation_witness:
  "braceTextIsNoArray (tablePlatform [(''[{}]'', JArray [JObject []]), (''{}'', JObject [])]) \<and>
   parseSteps (tablePlatform [(''[{}]'', JArray [JObject []]), (''{}'', JObject [])])
     \<lparr>tc_id = ''t'', tc_steps = [''[{}]'', ''Open the page''], tc_baseUrl = None,
      tc_targetPageUrl = None\<rparr> = [JObject []] \<and>
   parseSteps (tablePlatform [(''[{}]'', JArray [JObject []]), (''{}'', JObject [])])
     \<lparr>tc_id = ''t'', tc_steps = [''[Open the page'', ''[{}]''], tc_baseUrl = None,
      tc_targetPageUrl = None\<rparr> = []"
proof -
  let ?J = "tablePlatform [(''[{}]'', JArray [JObject []]), (''{}'', JObject [])]"
  have b: "braceTextIsNoArray ?J"
    by (auto simp: braceTextIsNoArray_def tablePlatform_def split: if_splits)
  from parseSteps_dual_representation [OF b, of
      "\<lparr>tc_id = ''t'', tc_steps = [''[{}]'', ''Open the page''], tc_baseUrl = None,
        tc_targetPageUrl = None\<rparr>"]
    parseSteps_dual_representation [OF b, of
      "\<lparr>tc_id = ''t'', tc_steps = [''[Open the page'', ''[{}]''], tc_baseUrl = None,
        tc_targetPageUrl = None\<rparr>"]
    b
  show ?thesis by (simp add: tablePlatform_def)
qed

section \<open>Facts about the live runner\<close>

lemma length_mapAt [simp]: "length (mapAt i f xs) = length xs"
  by (simp add: mapAt_def)

lemma nth_mapAt: "j < length xs \<Longrightarrow> mapAt i f xs ! j = (if j = i then f (xs ! j) else xs ! j)"
  by (simp add: mapAt_def nth_enumerate_eq)

lemma posts_append [simp]: "posts (xs @ ys) = posts xs @ posts ys"
  by (induction xs rule: posts.induct) auto

lemma navigations_append [simp]: "navigations (xs @ ys) = navigations xs @ navigations ys"
  by (induction xs rule: navigations.induct) auto

lemma snd_fail [simp]: "snd (fail m) = []"
  by (simp add: fail_def)

lemma snd_ok [simp]: "snd (ok m evs) = evs"
  by (simp add: ok_def)

lemma posts_cases:
  "posts (snd (navigateCase P tw tc step i)) = []"
  "posts (snd (waitForPageLoadCase a)) = []"
  "posts (snd (waitCase a step)) = []"
  "posts (snd (clickCase P tw a step i)) = []"
  "posts (snd (fillCase P tw a step i)) = []"
  "posts (snd (verifyElementCase P tw a step)) = []"
  "posts (snd (assertCase step)) = []"
  "posts (snd (defaultCase step)) = []"
  by (simp_all add: navigateCase_def waitForPageLoadCase_def waitCase_def clickCase_def
      fillCase_def verifyElementCase_def assertCase_def defaultCase_def Let_def
      split: option.split query.split)

lemma navigations_cases:
  "set (navigations (snd (navigateCase P tw tc step i))) \<subseteq> {Step i}"
  "navigations (snd (waitForPageLoadCase a)) = []"
  "navigations (snd (waitCase a step)) = []"
  "navigations (snd (clickCase P tw a step i)) = []"
  "navigations (snd (fillCase P tw a step i)) = []"
  "navigations (snd (verifyElementCase P tw a step)) = []"
  "navigations (snd (assertCase step)) = []"
  "navigations (snd (defaultCase step)) = []"
  by (simp_all add: navigateCase_def waitForPageLoadCase_def waitCase_def clickCase_def
      fillCase_def verifyElementCase_def assertCase_def defaultCase_def Let_def
      split: option.split query.split)

lemma posts_stepEvents [simp]: "posts (stepEvents W tc steps c i) = []"
  by (simp add: stepEvents_def executeStep_def Let_def posts_cases)

lemma navigations_stepEvents: "set (navigations (stepEvents W tc steps c i)) \<subseteq> {Step i}"
  by (simp add: stepEvents_def executeStep_def Let_def navigations_cases)

text \<open>The loop, one iteration at a time.\<close>

lemma runSteps_done:
  "\<not> i < length steps \<Longrightarrow> runSteps W tc steps c skip i st tr = (LoopCompleted, st, tr)"
  by (simp add: runSteps.simps)

lemma runSteps_skip:
  "i < length steps \<Longrightarrow> skipsAt skip steps i \<Longrightarrow>
   runSteps W tc steps c skip i st tr
     = runSteps W tc steps c skip (Suc i) (markSkipped tc steps i st) tr"
  by (subst runSteps.simps) (auto simp: skipsAt_def markSkipped_def)

lemma runSteps_abort_step:
  "i < length steps \<Longrightarrow> \<not> skipsAt skip steps i \<Longrightarrow> fatal (stepOutcome W tc steps c i) \<Longrightarrow>
   runSteps W tc steps c skip i st tr
     = (LoopAborted,
        (recordOutcome (stepOutcome W tc steps c i) (elapsed (w_probe W i)) i st)
          \<lparr>ui_error := Some (abortMessage (stepOutcome W tc steps c i) i), ui_isRunning := False\<rparr>,
        tr @ stepEvents W tc steps c i @
        [Posted (abortRecord W tc steps c (stepOutcome W tc steps c i) i)])"
  by (subst runSteps.simps)
    (auto simp: skipsAt_def recordOutcome_def stepOutcome_def stepEvents_def fatal_def
      abortRecord_def abortMessage_def Let_def split: prod.splits)

lemma runSteps_continue:
  "i < length steps \<Longrightarrow> \<not> skipsAt skip steps i \<Longrightarrow> \<not> fatal (stepOutcome W tc steps c i) \<Longrightarrow>
   runSteps W tc steps c skip i st tr
     = runSteps W tc steps c skip (Suc i)
         (recordOutcome (stepOutcome W tc steps c i) (elapsed (w_probe W i)) i st)
         (tr @ stepEvents W tc steps c i)"
  by (subst runSteps.simps)
    (auto simp: skipsAt_def recordOutcome_def stepOutcome_def stepEvents_def fatal_def
      Let_def split: prod.splits)

lemma runSteps_induct_rule [case_names finished skipped aborted continued]:
  assumes "\<And>i st tr. \<not> i < length steps \<Longrightarrow> Q i st tr"
    and "\<And>i st tr. i < length steps \<Longrightarrow> skipsAt skip steps i \<Longrightarrow>
           Q (Suc i) (markSkipped tc steps i st) tr \<Longrightarrow> Q i st tr"
    and "\<And>i st tr. i < length steps \<Longrightarrow> \<not> skipsAt skip steps i \<Longrightarrow>
           fatal (stepOutcome W tc steps c i) \<Longrightarrow> Q i st tr"
    and "\<And>i st tr. i < length steps \<Longrightarrow> \<not> skipsAt skip steps i \<Longrightarrow>
           \<not> fatal (stepOutcome W tc steps c i) \<Longrightarrow>
           Q (Suc i) (recordOutcome (stepOutcome W tc steps c i) (elapsed (w_probe W i)) i st)
             (tr @ stepEvents W tc steps c i) \<Longrightarrow> Q i st tr"
  shows "Q i st tr"
proof (induction "length steps - i" arbitrary: i st tr)
  case 0
  then show ?case using assms(1) by simp
next
  case (Suc n)
  then have lt: "i < length steps" and n: "n = length steps - Suc i" by simp_all
  show ?case
  proof (cases "skipsAt skip steps i")
    case True
    with lt Suc.hyps(1) [OF n] assms(2) show ?thesis by blast
  next
    case False
    with lt Suc.hyps(1) [OF n] assms(3,4) show ?thesis by blast
  qed
qed

lemma results_markSkipped [simp]:
  "length (ui_results (markSkipped tc steps i st)) = length (ui_results st)"
  by (simp add: markSkipped_def)

lemma results_recordOutcome [simp]:
  "length (ui_results (recordOutcome r d i st)) = length (ui_results st)"
  by (simp add: recordOutcome_def)

lemma nth_markSkipped:
  "j < length (ui_results st) \<Longrightarrow>
   ui_results (markSkipped tc steps i st) ! j
     = (if j = i
        then (ui_results st ! j)\<lparr>r_status := Passed,
               r_message := Some (''Already navigated to '' @
                 resolveUrl tc (orElse (st_url (steps ! i)) []))\<rparr>
        else ui_results st ! j)"
  by (simp add: markSkipped_def nth_mapAt)

lemma nth_recordOutcome:
  "j < length (ui_results st) \<Longrightarrow>
   ui_results (recordOutcome r d i st) ! j
     = (if j = i
        then (ui_results st ! j)\<lparr>r_status := (if success r then Passed else Failed),
               r_message := Some (message r), r_duration := Some d\<rparr>
        else ui_results st ! j)"
  by (simp add: recordOutcome_def nth_mapAt)

text \<open>The loop never changes the length of the results, nor an entry below its start index.\<close>

lemma runSteps_results_below:
  "length (ui_results (fst (snd (runSteps W tc steps c skip i st tr)))) = length (ui_results st) \<and>
   (\<forall>j. j < i \<and> j < length (ui_results st) \<longrightarrow>
      ui_results (fst (snd (runSteps W tc steps c skip i st tr))) ! j = ui_results st ! j)"
proof (induction i st tr rule: runSteps_induct_rule [of steps _ skip tc W c])
  case (finished i st tr)
  then show ?case by (simp add: runSteps_done)
next
  case (skipped i st tr)
  then show ?case by (simp add: runSteps_skip nth_markSkipped)
next
  case (aborted i st tr)
  then show ?case by (simp add: runSteps_abort_step nth_recordOutcome)
next
  case (continued i st tr)
  then show ?case by (simp add: runSteps_continue nth_recordOutcome)
qed

text \<open>What the loop adds to the trace.\<close>

lemma x_status_abortRecord [simp]: "x_status (abortRecord W tc steps c r i) = ''failed''"
  by (simp add: abortRecord_def Let_def)

lemma runSteps_posts:
  "(fst (runSteps W tc steps c skip i st tr) = LoopCompleted \<longrightarrow>
      posts (snd (snd (runSteps W tc steps c skip i st tr))) = posts tr) \<and>
   (fst (runSteps W tc steps c skip i st tr) = LoopAborted \<longrightarrow>
      (\<exists>r. posts (snd (snd (runSteps W tc steps c skip i st tr))) = posts tr @ [r] \<and>
           x_status r = ''failed''))"
proof (induction i st tr rule: runSteps_induct_rule [of steps _ skip tc W c])
  case (finished i st tr)
  then show ?case by (simp add: runSteps_done)
next
  case (skipped i st tr)
  then show ?case by (simp add: runSteps_skip)
next
  case (aborted i st tr)
  then show ?case by (simp add: runSteps_abort_step)
next
  case (continued i st tr)
  then show ?case by (simp add: runSteps_continue)
qed

lemma runSteps_navigations:
  "set (navigations (snd (snd (runSteps W tc steps c skip i st tr))))
     \<subseteq> set (navigations tr) \<union>
        {Step j | j. i \<le> j \<and> j < length steps \<and> \<not> skipsAt skip steps j}"
proof (induction i st tr rule: runSteps_induct_rule [of steps _ skip tc W c])
  case (finished i st tr)
  then show ?case by (simp add: runSteps_done)
next
  case (skipped i st tr)
  have "{Step j | j. Suc i \<le> j \<and> j < length steps \<and> \<not> skipsAt skip steps j}
          \<subseteq> {Step j | j. i \<le> j \<and> j < length steps \<and> \<not> skipsAt skip steps j}"
    by auto
  with skipped(3) have
    "set (navigations (snd (snd (runSteps W tc steps c skip (Suc i) (markSkipped tc steps i st) tr))))
       \<subseteq> set (navigations tr) \<union>
          {Step j | j. i \<le> j \<and> j < length steps \<and> \<not> skipsAt skip steps j}"
    by blast
  with skipped(1,2) show ?case by (simp add: runSteps_skip)
next
  case (aborted i st tr)
  have "set (navigations (stepEvents W tc steps c i))
          \<subseteq> {Step j | j. i \<le> j \<and> j < length steps \<and> \<not> skipsAt skip steps j}"
    using navigations_stepEvents [of W tc steps c i] aborted(1,2) by auto
  with aborted show ?case by (auto simp: runSteps_abort_step)
next
  case (continued i st tr)
  have a: "set (navigations (stepEvents W tc steps c i))
          \<subseteq> {Step j | j. i \<le> j \<and> j < length steps \<and> \<not> skipsAt skip steps j}"
    using navigations_stepEvents [of W tc steps c i] continued(1,2) by auto
  have b: "{Step j | j. Suc i \<le> j \<and> j < length steps \<and> \<not> skipsAt skip steps j}
          \<subseteq> {Step j | j. i \<le> j \<and> j < length steps \<and> \<not> skipsAt skip steps j}"
    by auto
  have "set (navigations (snd (snd (runSteps W tc steps c skip (Suc i)
            (recordOutcome (stepOutcome W tc steps c i) (elapsed (w_probe W i)) i st)
            (tr @ stepEvents W tc steps c i)))))
       \<subseteq> set (navigations tr) \<union>
          {Step j | j. i \<le> j \<and> j < length steps \<and> \<not> skipsAt skip steps j}"
    using continued(4) a b by (simp only: navigations_append set_append) blast
  with continued(1-3) show ?case by (simp add: runSteps_continue)
qed
text \<open>The first executed step with a fatal outcome ends the loop there.\<close>

lemma runSteps_aborts_at:
  "i \<le> k \<Longrightarrow> k < length steps \<Longrightarrow> k < length (ui_results st) \<Longrightarrow>
   \<not> skipsAt skip steps k \<Longrightarrow> fatal (stepOutcome W tc steps c k) \<Longrightarrow>
   (\<forall>j. i \<le> j \<and> j < k \<longrightarrow> skipsAt skip steps j \<or> \<not> fatal (stepOutcome W tc steps c j)) \<Longrightarrow>
   fst (runSteps W tc steps c skip i st tr) = LoopAborted \<and>
   (\<forall>j. k < j \<and> j < length (ui_results st) \<longrightarrow>
      ui_results (fst (snd (runSteps W tc steps c skip i st tr))) ! j = ui_results st ! j) \<and>
   r_status (ui_results (fst (snd (runSteps W tc steps c skip i st tr))) ! k) = Failed \<and>
   r_message (ui_results (fst (snd (runSteps W tc steps c skip i st tr))) ! k)
     = Some (message (stepOutcome W tc steps c k)) \<and>
   \<not> ui_isRunning (fst (snd (runSteps W tc steps c skip i st tr))) \<and>
   posts (snd (snd (runSteps W tc steps c skip i st tr)))
     = posts tr @ [abortRecord W tc steps c (stepOutcome W tc steps c k) k]"
proof (induction i st tr rule: runSteps_induct_rule [of steps _ skip tc W c])
  case (finished i st tr)
  then show ?case by simp
next
  case (skipped i st tr)
  then have "i \<noteq> k" by auto
  with skipped have "Suc i \<le> k" by simp
  with skipped show ?case by (simp add: runSteps_skip nth_markSkipped)
next
  case (aborted i st tr)
  then have "i = k" by (metis le_neq_implies_less order_refl)
  with aborted show ?case
    by (simp add: runSteps_abort_step nth_recordOutcome fatal_def)
next
  case (continued i st tr)
  then have "i \<noteq> k" by auto
  with continued have "Suc i \<le> k" by simp
  with continued show ?case by (simp add: runSteps_continue nth_recordOutcome)
qed
text \<open>Every index the loop gets to leaves the state \<open>Pending\<close>, for good.\<close>

lemma runSteps_reached_status:
  "i \<le> k \<Longrightarrow> k < length steps \<Longrightarrow> k < length (ui_results st) \<Longrightarrow>
   (\<forall>j. i \<le> j \<and> j < k \<longrightarrow> skipsAt skip steps j \<or> \<not> fatal (stepOutcome W tc steps c j)) \<Longrightarrow>
   r_status (ui_results (fst (snd (runSteps W tc steps c skip i st tr))) ! k)
     = (if skipsAt skip steps k \<or> success (stepOutcome W tc steps c k) then Passed else Failed)"
proof (induction i st tr rule: runSteps_induct_rule [of steps _ skip tc W c])
  case (finished i st tr)
  then show ?case by simp
next
  case (skipped i st tr)
  show ?case
  proof (cases "i = k")
    case True
    with skipped(1,2,6) show ?thesis
      using runSteps_results_below [of W tc steps c skip "Suc k" "markSkipped tc steps k st" tr]
      by (simp add: runSteps_skip nth_markSkipped)
  next
    case False
    with skipped have "Suc i \<le> k" by simp
    with skipped show ?thesis by (simp add: runSteps_skip)
  qed
next
  case (aborted i st tr)
  then have "i = k" by (metis le_neq_implies_less order_refl)
  with aborted show ?case
    by (simp add: runSteps_abort_step nth_recordOutcome fatal_def)
next
  case (continued i st tr)
  show ?case
  proof (cases "i = k")
    case True
    with continued(1,2,3,7) show ?thesis
      using runSteps_results_below [of W tc steps c skip "Suc k"
          "recordOutcome (stepOutcome W tc steps c k) (elapsed (w_probe W k)) k st"
          "tr @ stepEvents W tc steps c k"]
      by (simp add: runSteps_continue nth_recordOutcome)
  next
    case False
    with continued have "Suc i \<le> k" by simp
    with continued show ?thesis by (simp add: runSteps_continue)
  qed
qed
text \<open>Without a fatal outcome the loop runs to its end.\<close>

lemma runSteps_completes:
  "(\<forall>j. i \<le> j \<and> j < length steps \<longrightarrow>
      skipsAt skip steps j \<or> \<not> fatal (stepOutcome W tc steps c j)) \<Longrightarrow>
   fst (runSteps W tc steps c skip i st tr) = LoopCompleted"
proof (induction i st tr rule: runSteps_induct_rule [of steps _ skip tc W c])
  case (finished i st tr)
  then show ?case by (simp add: runSteps_done)
next
  case (skipped i st tr)
  then show ?case by (simp add: runSteps_skip)
next
  case (aborted i st tr)
  then show ?case by auto
next
  case (continued i st tr)
  then show ?case by (simp add: runSteps_continue)
qed

text \<open>The run as a whole.\<close>

lemma runTest_enters:
  assumes "entersLoop W steps"
  shows "runTest W tc steps c
           = finishRun W tc steps c
               (runSteps W tc steps c (skipFlag steps) 0 (loopState W steps c) (loopTrace W tc steps))"
proof -
  from assms obtain w where w: "w_open W = Some w" and ne: "steps \<noteq> []"
    and wr: "w_writeThrows W = None"
    and up: "find isNavigateWithUrl steps \<noteq> None \<longrightarrow> w_upfrontAssign W = None"
    by (auto simp: entersLoop_def)
  show ?thesis
  proof (cases "find isNavigateWithUrl steps")
    case None
    with w ne wr show ?thesis
      by (simp add: runTest_def Let_def skipFlag_def loopState_def loopTrace_def pendingResults_def)
  next
    case (Some f)
    with up have "w_upfrontAssign W = None" by simp
    with Some w ne wr show ?thesis
      by (simp add: runTest_def Let_def skipFlag_def loopState_def loopTrace_def pendingResults_def)
  qed
qed

lemma loopState_results [simp]:
  "length (ui_results (loopState W steps c)) = length steps"
  "j < length steps \<Longrightarrow> r_status (ui_results (loopState W steps c) ! j) = Pending"
  by (simp_all add: loopState_def pendingResults_def Let_def)

lemma posts_loopTrace [simp]: "posts (loopTrace W tc steps) = []"
  by (simp add: loopTrace_def split: option.split)

lemma navigations_loopTrace:
  "navigations (loopTrace W tc steps) = (if skipFlag steps then [Setup] else [])"
  by (simp add: loopTrace_def skipFlag_def split: option.split)

lemma finishRun_aborted:
  "fst lr = LoopAborted \<Longrightarrow> finishRun W tc steps c lr = (Returned, snd lr)"
  by (cases lr) (simp add: finishRun_def)

lemma finishRun_completed:
  "fst lr = LoopCompleted \<Longrightarrow>
   fst (finishRun W tc steps c lr) = Returned \<and>
   ui_results (fst (snd (finishRun W tc steps c lr))) = ui_results (fst (snd lr)) \<and>
   \<not> ui_isRunning (fst (snd (finishRun W tc steps c lr))) \<and>
   (\<exists>r. posts (snd (snd (finishRun W tc steps c lr))) = posts (snd (snd lr)) @ [r] \<and>
        x_status r = (if countStatus Failed (ui_results c) > 0 then ''failed'' else ''passed'') \<and>
        x_stepResults r = ui_results c) \<and>
   navigations (snd (snd (finishRun W tc steps c lr))) = navigations (snd (snd lr))"
  by (cases lr) (simp add: finishRun_def Let_def)

lemma runTest_aborts_at:
  assumes "entersLoop W steps"
    and "i < length steps"
    and "reaches W tc steps c (skipFlag steps) i"
    and "\<not> skipsAt (skipFlag steps) steps i"
    and "fatal (stepOutcome W tc steps c i)"
  shows "fst (runTest W tc steps c) = Returned \<and>
         length (ui_results (fst (snd (runTest W tc steps c)))) = length steps \<and>
         r_status (ui_results (fst (snd (runTest W tc steps c))) ! i) = Failed \<and>
         (\<forall>j. i < j \<and> j < length steps \<longrightarrow>
            r_status (ui_results (fst (snd (runTest W tc steps c))) ! j) = Pending) \<and>
         \<not> ui_isRunning (fst (snd (runTest W tc steps c))) \<and>
         (\<exists>r. posts (snd (snd (runTest W tc steps c))) = [r] \<and> x_status r = ''failed'')"
proof -
  let ?lr = "runSteps W tc steps c (skipFlag steps) 0 (loopState W steps c) (loopTrace W tc steps)"
  have r: "\<forall>j. 0 \<le> j \<and> j < i \<longrightarrow>
             skipsAt (skipFlag steps) steps j \<or> \<not> fatal (stepOutcome W tc steps c j)"
    using assms(3) by (simp add: reaches_def)
  have a: "fst ?lr = LoopAborted"
    and b: "\<forall>j. i < j \<and> j < length (ui_results (loopState W steps c)) \<longrightarrow>
              ui_results (fst (snd ?lr)) ! j = ui_results (loopState W steps c) ! j"
    and f: "r_status (ui_results (fst (snd ?lr)) ! i) = Failed"
    and n: "\<not> ui_isRunning (fst (snd ?lr))"
    and p: "posts (snd (snd ?lr))
              = posts (loopTrace W tc steps) @ [abortRecord W tc steps c (stepOutcome W tc steps c i) i]"
    using runSteps_aborts_at [of 0 i steps "loopState W steps c" "skipFlag steps" W tc c
        "loopTrace W tc steps"] assms(2,4,5) r
    by simp_all
  have l: "length (ui_results (fst (snd ?lr))) = length steps"
    using runSteps_results_below [of W tc steps c "skipFlag steps" 0 "loopState W steps c"
        "loopTrace W tc steps"] by simp
  have e: "runTest W tc steps c = (Returned, snd ?lr)"
    using runTest_enters [OF assms(1), of tc c] finishRun_aborted [OF a, of W tc steps c]
    by (simp only:)
  from b have "\<forall>j. i < j \<and> j < length steps \<longrightarrow> r_status (ui_results (fst (snd ?lr)) ! j) = Pending"
    by simp
  with e l f n p show ?thesis by simp
qed

text \<open>
  C1. When the loop gets to position \<open>i\<close> and the step there fails with a message that has no
  cross-origin wording, the run returns at once: the entry at \<open>i\<close> is \<open>Failed\<close>, every entry
  after \<open>i\<close> is still \<open>Pending\<close>, the run is no longer marked as running, and exactly one
  request went to the record store, with status \<^verbatim>\<open>failed\<close>.
\<close>

theorem abort_on_failure:
  assumes "entersLoop W steps"
    and "i < length steps"
    and "reaches W tc steps c (skipFlag steps) i"
    and "\<not> skipsAt (skipFlag steps) steps i"
    and "fatal (stepOutcome W tc steps c i)"
  shows "fst (runTest W tc steps c) = Returned \<and>
         length (ui_results (fst (snd (runTest W tc steps c)))) = length steps \<and>
         r_status (ui_results (fst (snd (runTest W tc steps c))) ! i) = Failed \<and>
         (\<forall>j. i < j \<and> j < length steps \<longrightarrow>
            r_status (ui_results (fst (snd (runTest W tc steps c))) ! j) = Pending) \<and>
         \<not> ui_isRunning (fst (snd (runTest W tc steps c))) \<and>
         (\<exists>r. posts (snd (snd (runTest W tc steps c))) = [r] \<and> x_status r = ''failed'')"
  using assms by (rule runTest_aborts_at)


lemma runSteps_trace_prefix: "prefix tr (snd (snd (runSteps W tc steps c skip i st tr)))"
proof (induction i st tr rule: runSteps_induct_rule [of steps _ skip tc W c])
  case (finished i st tr)
  then show ?case by (simp add: runSteps_done)
next
  case (skipped i st tr)
  then show ?case by (simp add: runSteps_skip)
next
  case (aborted i st tr)
  then show ?case by (simp add: runSteps_abort_step)
next
  case (continued i st tr)
  then show ?case by (auto simp: runSteps_continue dest: append_prefixD)
qed

lemma finishRun_results [simp]:
  "ui_results (fst (snd (finishRun W tc steps c lr))) = ui_results (fst (snd lr))"
  by (cases lr) (simp add: finishRun_def Let_def split: loop_exit.split)

lemma finishRun_trace_prefix: "prefix (snd (snd lr)) (snd (snd (finishRun W tc steps c lr)))"
  by (cases lr) (simp add: finishRun_def Let_def split: loop_exit.split)

lemma finishRun_navigations [simp]:
  "navigations (snd (snd (finishRun W tc steps c lr))) = navigations (snd (snd lr))"
  by (cases lr) (simp add: finishRun_def Let_def split: loop_exit.split)

lemma runTest_results:
  "entersLoop W steps \<Longrightarrow>
   ui_results (fst (snd (runTest W tc steps c)))
     = ui_results (fst (snd (runSteps W tc steps c (skipFlag steps) 0 (loopState W steps c)
         (loopTrace W tc steps))))"
  by (simp add: runTest_enters)

lemma runTest_reached_status:
  assumes "entersLoop W steps" and "k < length steps" and "reaches W tc steps c (skipFlag steps) k"
  shows "r_status (ui_results (fst (snd (runTest W tc steps c))) ! k)
           = (if skipsAt (skipFlag steps) steps k \<or> success (stepOutcome W tc steps c k)
              then Passed else Failed)"
proof -
  have "\<forall>j. 0 \<le> j \<and> j < k \<longrightarrow>
          skipsAt (skipFlag steps) steps j \<or> \<not> fatal (stepOutcome W tc steps c j)"
    using assms(3) by (simp add: reaches_def)
  then show ?thesis
    using runSteps_reached_status [of 0 k steps "loopState W steps c" "skipFlag steps" W tc c
        "loopTrace W tc steps"] assms(1,2)
    by (simp add: runTest_results)
qed

lemma runTest_completes:
  assumes "entersLoop W steps"
    and "\<forall>j < length steps. skipsAt (skipFlag steps) steps j \<or> \<not> fatal (stepOutcome W tc steps c j)"
  shows "fst (runTest W tc steps c) = Returned \<and>
         \<not> ui_isRunning (fst (snd (runTest W tc steps c))) \<and>
         (\<exists>r. posts (snd (snd (runTest W tc steps c))) = [r] \<and>
            x_status r = (if countStatus Failed (ui_results c) > 0 then ''failed'' else ''passed'') \<and>
            x_stepResults r = ui_results c)"
proof -
  let ?lr = "runSteps W tc steps c (skipFlag steps) 0 (loopState W steps c) (loopTrace W tc steps)"
  have c: "fst ?lr = LoopCompleted"
    using assms(2) by (intro runSteps_completes) simp
  then have "posts (snd (snd ?lr)) = []"
    using runSteps_posts [of W tc steps c "skipFlag steps" 0 "loopState W steps c"
        "loopTrace W tc steps"] by simp
  with finishRun_completed [OF c, of W tc steps c] show ?thesis
    by (simp add: runTest_enters [OF assms(1)])
qed

text \<open>
  C2 (as amended). When the loop gets to position \<open>i\<close> and the step there fails with a
  cross-origin wording in its message, the entry at \<open>i\<close> is \<open>Failed\<close> and the loop goes on:
  the entry at \<open>i + 1\<close>, if there is one, leaves \<open>Pending\<close>. If moreover no step after \<open>i\<close>
  fails without that wording, every entry leaves \<open>Pending\<close> and the run ends with one request
  to the record store.
\<close>

theorem cross_origin_failure_continues:
  assumes "entersLoop W steps"
    and "i < length steps"
    and "reaches W tc steps c (skipFlag steps) i"
    and "\<not> skipsAt (skipFlag steps) steps i"
    and "\<not> success (stepOutcome W tc steps c i)"
    and "isCrossOriginWarning (message (stepOutcome W tc steps c i))"
  shows "r_status (ui_results (fst (snd (runTest W tc steps c))) ! i) = Failed \<and>
         (Suc i < length steps \<longrightarrow>
            r_status (ui_results (fst (snd (runTest W tc steps c))) ! Suc i) \<in> {Passed, Failed}) \<and>
         ((\<forall>j. i < j \<and> j < length steps \<longrightarrow> \<not> fatal (stepOutcome W tc steps c j)) \<longrightarrow>
            (\<forall>j < length steps.
               r_status (ui_results (fst (snd (runTest W tc steps c))) ! j) \<in> {Passed, Failed}) \<and>
            (\<exists>r. posts (snd (snd (runTest W tc steps c))) = [r]))"
proof -
  have nf: "\<not> fatal (stepOutcome W tc steps c i)"
    using assms(6) by (simp add: fatal_def)
  have a: "r_status (ui_results (fst (snd (runTest W tc steps c))) ! i) = Failed"
    using runTest_reached_status [OF assms(1,2,3)] assms(4,5) by simp
  have r: "reaches W tc steps c (skipFlag steps) (Suc i)"
    using assms(3) nf by (auto simp: reaches_def less_Suc_eq)
  have b: "r_status (ui_results (fst (snd (runTest W tc steps c))) ! Suc i) \<in> {Passed, Failed}"
    if "Suc i < length steps"
    using runTest_reached_status [OF assms(1) that r] by simp
  have d: "(\<forall>j < length steps.
               r_status (ui_results (fst (snd (runTest W tc steps c))) ! j) \<in> {Passed, Failed}) \<and>
            (\<exists>r. posts (snd (snd (runTest W tc steps c))) = [r])"
    if later: "\<forall>j. i < j \<and> j < length steps \<longrightarrow> \<not> fatal (stepOutcome W tc steps c j)"
  proof -
    have all: "\<forall>j < length steps.
        skipsAt (skipFlag steps) steps j \<or> \<not> fatal (stepOutcome W tc steps c j)"
    proof (intro allI impI)
      fix j assume "j < length steps"
      consider "j < i" | "j = i" | "i < j" by linarith
      then show "skipsAt (skipFlag steps) steps j \<or> \<not> fatal (stepOutcome W tc steps c j)"
        using assms(3) nf later \<open>j < length steps\<close> by cases (auto simp: reaches_def)
    qed
    then have rk: "reaches W tc steps c (skipFlag steps) k" if "k < length steps" for k
      using that by (simp add: reaches_def)
    have "r_status (ui_results (fst (snd (runTest W tc steps c))) ! j) \<in> {Passed, Failed}"
      if "j < length steps" for j
      using runTest_reached_status [OF assms(1) that rk [OF that]] by simp
    then have "\<forall>j < length steps.
               r_status (ui_results (fst (snd (runTest W tc steps c))) ! j) \<in> {Passed, Failed}"
      by blast
    moreover have "\<exists>r. posts (snd (snd (runTest W tc steps c))) = [r]"
      using runTest_completes [OF assms(1) all] by blast
    ultimately show ?thesis by blast
  qed
  from a b d show ?thesis by blast
qed

lemma runSteps_trace_shift:
  "snd (snd (runSteps W tc steps c skip i st (tr0 @ tr)))
     = tr0 @ snd (snd (runSteps W tc steps c skip i st tr))"
proof (induction i st tr arbitrary: tr0 rule: runSteps_induct_rule [of steps _ skip tc W c])
  case (finished i st tr)
  then show ?case by (simp add: runSteps_done)
next
  case (skipped i st tr)
  then show ?case by (simp add: runSteps_skip)
next
  case (aborted i st tr)
  then show ?case by (simp add: runSteps_abort_step)
next
  case (continued i st tr)
  from continued(4) [of tr0] continued(1-3) show ?case
    by (simp add: runSteps_continue)
qed

lemma runSteps_trace_append:
  "snd (snd (runSteps W tc steps c skip i st tr))
     = tr @ snd (snd (runSteps W tc steps c skip i st []))"
  using runSteps_trace_shift [of W tc steps c skip i st tr "[]"] by simp

lemma runTest_navigations:
  assumes "entersLoop W steps"
  shows "\<exists>rest. navigations (snd (snd (runTest W tc steps c)))
           = navigations (loopTrace W tc steps) @ rest \<and>
           set rest \<subseteq> {Step j | j. j < length steps \<and> \<not> skipsAt (skipFlag steps) steps j}"
proof -
  let ?evs = "snd (snd (runSteps W tc steps c (skipFlag steps) 0 (loopState W steps c) []))"
  have "navigations (snd (snd (runTest W tc steps c)))
          = navigations (loopTrace W tc steps) @ navigations ?evs"
    using runSteps_trace_append [of W tc steps c "skipFlag steps" 0 "loopState W steps c"
        "loopTrace W tc steps"]
    by (simp add: runTest_enters [OF assms])
  moreover have "set (navigations ?evs)
      \<subseteq> {Step j | j. j < length steps \<and> \<not> skipsAt (skipFlag steps) steps j}"
    using runSteps_navigations [of W tc steps c "skipFlag steps" 0 "loopState W steps c" "[]"]
    by simp
  ultimately show ?thesis by blast
qed

lemma runTest_no_navigation:
  assumes "\<not> entersLoop W steps"
  shows "navigations (snd (snd (runTest W tc steps c))) = []"
proof (cases "steps = [] \<or> w_open W = None \<or> w_writeThrows W \<noteq> None")
  case True
  then show ?thesis
    by (auto simp: runTest_def Let_def split: option.split)
next
  case False
  with assms obtain f err where "find isNavigateWithUrl steps = Some f" "w_upfrontAssign W = Some err"
    by (auto simp: entersLoop_def)
  with False show ?thesis
    by (auto simp: runTest_def Let_def split: option.split)
qed

text \<open>
  C5 (as amended). If the first step is a navigate step with a non-empty url, and the window
  opens and accepts the assignment, the navigation to that url is performed up front, exactly
  once, and the first step is marked \<open>Passed\<close> in the loop without a call of \<^verbatim>\<open>executeStep\<close>:
  every other navigation of the run belongs to a step at a later position. If no step is a
  navigate step with a non-empty url, no up-front navigation is performed.
\<close>

theorem upfront_navigation:
  "(entersLoop W steps \<and> isNavigateWithUrl (steps ! 0) \<longrightarrow>
      LocationAssigned Setup (the (w_open W)) (resolveUrl tc (the (st_url (steps ! 0))))
        \<in> set (snd (snd (runTest W tc steps c))) \<and>
      (\<exists>rest. navigations (snd (snd (runTest W tc steps c))) = Setup # rest \<and>
               set rest \<subseteq> {Step j | j. 0 < j \<and> j < length steps}) \<and>
      r_status (ui_results (fst (snd (runTest W tc steps c))) ! 0) = Passed) \<and>
   ((\<forall>s \<in> set steps. \<not> isNavigateWithUrl s) \<longrightarrow>
      Setup \<notin> set (navigations (snd (snd (runTest W tc steps c)))))"
proof -
  have first: "LocationAssigned Setup (the (w_open W)) (resolveUrl tc (the (st_url (steps ! 0))))
        \<in> set (snd (snd (runTest W tc steps c))) \<and>
      (\<exists>rest. navigations (snd (snd (runTest W tc steps c))) = Setup # rest \<and>
               set rest \<subseteq> {Step j | j. 0 < j \<and> j < length steps}) \<and>
      r_status (ui_results (fst (snd (runTest W tc steps c))) ! 0) = Passed"
    if e: "entersLoop W steps" and n: "isNavigateWithUrl (steps ! 0)"
  proof -
    from e obtain s0 rest where steps: "steps = s0 # rest"
      by (cases steps) (auto simp: entersLoop_def)
    with n have f: "find isNavigateWithUrl steps = Some s0" by simp
    then have sf: "skipFlag steps" by (simp add: skipFlag_def)
    from n sf have sk: "skipsAt (skipFlag steps) steps 0"
      by (simp add: skipsAt_def isNavigateWithUrl_def)
    have lt: "loopTrace W tc steps
        = [WindowOpened (the (w_open W)), DocumentWritten (the (w_open W)),
           LocationAssigned Setup (the (w_open W)) (resolveUrl tc (the (st_url (steps ! 0))))]"
      using f steps by (simp add: loopTrace_def)
    have "prefix (loopTrace W tc steps) (snd (snd (runTest W tc steps c)))"
      using runSteps_trace_prefix [of "loopTrace W tc steps" W tc steps c "skipFlag steps" 0
          "loopState W steps c"]
        finishRun_trace_prefix [of "runSteps W tc steps c (skipFlag steps) 0 (loopState W steps c)
          (loopTrace W tc steps)" W tc steps c]
      by (simp add: runTest_enters [OF e])
    then have "set (loopTrace W tc steps) \<subseteq> set (snd (snd (runTest W tc steps c)))"
      by (rule set_mono_prefix)
    with lt have a: "LocationAssigned Setup (the (w_open W)) (resolveUrl tc (the (st_url (steps ! 0))))
        \<in> set (snd (snd (runTest W tc steps c)))"
      by simp
    from runTest_navigations [OF e, of tc c] obtain more where
      m: "navigations (snd (snd (runTest W tc steps c))) = navigations (loopTrace W tc steps) @ more"
      "set more \<subseteq> {Step j | j. j < length steps \<and> \<not> skipsAt (skipFlag steps) steps j}"
      by blast
    from m(2) sk have "set more \<subseteq> {Step j | j. 0 < j \<and> j < length steps}"
      by (auto intro: gr0I)
    with m(1) lt have b: "\<exists>rest. navigations (snd (snd (runTest W tc steps c))) = Setup # rest \<and>
               set rest \<subseteq> {Step j | j. 0 < j \<and> j < length steps}"
      by simp
    have "reaches W tc steps c (skipFlag steps) 0" by (simp add: reaches_def)
    with runTest_reached_status [OF e, of 0 tc c] steps sk
    have "r_status (ui_results (fst (snd (runTest W tc steps c))) ! 0) = Passed" by simp
    with a b show ?thesis by blast
  qed
  have none: "Setup \<notin> set (navigations (snd (snd (runTest W tc steps c))))"
    if no: "\<forall>s \<in> set steps. \<not> isNavigateWithUrl s"
  proof (cases "entersLoop W steps")
    case True
    from no have "find isNavigateWithUrl steps = None" by (simp add: find_None_iff)
    then have "navigations (loopTrace W tc steps) = []" by (simp add: loopTrace_def)
    with runTest_navigations [OF True, of tc c] show ?thesis by auto
  next
    case False
    then show ?thesis by (simp add: runTest_no_navigation)
  qed
  from first none show ?thesis by blast
qed

section \<open>The claims at concrete inputs\<close>

lemmas example_defs =
  freshState_def exampleCase_def mkStep_def ownPage_def foreignPage_def closedWindow_def
  exampleWorld_def ownWorld_def foreignWorld_def closingWorld_def afterFirstRun_def
  loginSteps_def clickSteps_def lateNavigateSteps_def submitSteps_def

lemmas executeStep_defs =
  executeStep_def navigateCase_def waitForPageLoadCase_def waitCase_def clickCase_def
  fillCase_def verifyElementCase_def assertCase_def defaultCase_def ok_def fail_def
  resolveUrl_def stripTrailingSlashes_def Let_def

lemmas runTest_defs =
  runTest_def finishRun_def runSteps.simps isNavigateWithUrl_def isCrossOriginWarning_def
  mapAt_def countStatus_def

lemmas notion_defs =
  entersLoop_def reaches_def skipsAt_def skipFlag_def fatal_def stepOutcome_def

theorem abort_on_failure_witness:
  "entersLoop ownWorld loginSteps \<and>
   (1::nat) < length loginSteps \<and>
   reaches ownWorld exampleCase loginSteps freshState (skipFlag loginSteps) 1 \<and>
   \<not> skipsAt (skipFlag loginSteps) loginSteps 1 \<and>
   fatal (stepOutcome ownWorld exampleCase loginSteps freshState 1) \<and>
   r_status (ui_results (fst (snd (runTest ownWorld exampleCase loginSteps freshState))) ! 1) = Failed \<and>
   r_status (ui_results (fst (snd (runTest ownWorld exampleCase loginSteps freshState))) ! 2)
     = Pending \<and>
   (\<exists>r. posts (snd (snd (runTest ownWorld exampleCase loginSteps freshState))) = [r] \<and>
        x_status r = ''failed'')"
proof -
  have 1: "entersLoop ownWorld loginSteps"
    by (simp add: notion_defs example_defs isNavigateWithUrl_def)
  have 2: "(1::nat) < length loginSteps"
    by (simp add: loginSteps_def)
  have 3: "reaches ownWorld exampleCase loginSteps freshState (skipFlag loginSteps) 1"
    by (simp add: notion_defs example_defs isNavigateWithUrl_def)
  have 4: "\<not> skipsAt (skipFlag loginSteps) loginSteps 1"
    by (simp add: skipsAt_def)
  have 5: "fatal (stepOutcome ownWorld exampleCase loginSteps freshState 1)"
    by (simp add: notion_defs example_defs executeStep_defs isCrossOriginWarning_def)
  have 6: "(1::nat) < 2 \<and> (2::nat) < length loginSteps"
    by (simp add: loginSteps_def)
  from abort_on_failure [OF 1 2 3 4 5] 1 2 3 4 5 6 show ?thesis by blast
qed

text \<open>
  C2 as stated fails. A second run of three clicks: the page is of another origin at the first
  click, and the user closes the window before the second. The first click fails with the
  cross-origin wording, the second click ends the run, and the third stays \<open>Pending\<close>.
\<close>

theorem cross_origin_failure_counterexample:
  "\<not> success (stepOutcome closingWorld exampleCase clickSteps
       (afterFirstRun closingWorld clickSteps) 0) \<and>
   isCrossOriginWarning (message (stepOutcome closingWorld exampleCase clickSteps
       (afterFirstRun closingWorld clickSteps) 0)) \<and>
   map r_status (ui_results (fst (snd (runTest closingWorld exampleCase clickSteps
       (afterFirstRun closingWorld clickSteps)))))
     = [Failed, Failed, Pending]"
  by (simp add: notion_defs example_defs executeStep_defs runTest_defs)

theorem cross_origin_failure_continues_witness:
  "entersLoop foreignWorld clickSteps \<and>
   (0::nat) < length clickSteps \<and>
   reaches foreignWorld exampleCase clickSteps (afterFirstRun foreignWorld clickSteps)
     (skipFlag clickSteps) 0 \<and>
   \<not> skipsAt (skipFlag clickSteps) clickSteps 0 \<and>
   \<not> success (stepOutcome foreignWorld exampleCase clickSteps
       (afterFirstRun foreignWorld clickSteps) 0) \<and>
   isCrossOriginWarning (message (stepOutcome foreignWorld exampleCase clickSteps
       (afterFirstRun foreignWorld clickSteps) 0)) \<and>
   \<not> fatal (stepOutcome foreignWorld exampleCase clickSteps
       (afterFirstRun foreignWorld clickSteps) 1) \<and>
   \<not> fatal (stepOutcome foreignWorld exampleCase clickSteps
       (afterFirstRun foreignWorld clickSteps) 2) \<and>
   r_status (ui_results (fst (snd (runTest foreignWorld exampleCase clickSteps
       (afterFirstRun foreignWorld clickSteps)))) ! 0) = Failed \<and>
   r_status (ui_results (fst (snd (runTest foreignWorld exampleCase clickSteps
       (afterFirstRun foreignWorld clickSteps)))) ! 1) \<in> {Passed, Failed} \<and>
   r_status (ui_results (fst (snd (runTest foreignWorld exampleCase clickSteps
       (afterFirstRun foreignWorld clickSteps)))) ! 2) \<in> {Passed, Failed} \<and>
   (\<exists>r. posts (snd (snd (runTest foreignWorld exampleCase clickSteps
       (afterFirstRun foreignWorld clickSteps)))) = [r])"
proof -
  let ?c = "afterFirstRun foreignWorld clickSteps"
  have w: "ui_testWindow ?c = Some 1"
    by (simp add: example_defs executeStep_defs runTest_defs)
  have 1: "entersLoop foreignWorld clickSteps"
    by (simp add: notion_defs example_defs isNavigateWithUrl_def)
  have 2: "(0::nat) < length clickSteps"
    by (simp add: clickSteps_def)
  have 3: "reaches foreignWorld exampleCase clickSteps ?c (skipFlag clickSteps) 0"
    by (simp add: reaches_def)
  have 4: "\<not> skipsAt (skipFlag clickSteps) clickSteps 0"
    by (simp add: skipsAt_def skipFlag_def clickSteps_def mkStep_def isNavigateWithUrl_def)
  have o: "stepOutcome foreignWorld exampleCase clickSteps ?c j
      = \<lparr>success = False,
         message = ''Cannot access window (cross-origin). Please verify manually in the test window.''\<rparr>"
    if "j < length clickSteps" for j
  proof -
    from that have "j = 0 \<or> j = 1 \<or> j = 2" by (auto simp: clickSteps_def)
    then show ?thesis
      unfolding stepOutcome_def w
      by (auto simp: example_defs executeStep_defs)
  qed
  have 5: "\<not> success (stepOutcome foreignWorld exampleCase clickSteps ?c 0)"
    using o [of 0] 2 by simp
  have 6: "isCrossOriginWarning (message (stepOutcome foreignWorld exampleCase clickSteps ?c 0))"
    using o [of 0] 2 by (simp add: isCrossOriginWarning_def)
  have 7: "\<forall>j. 0 < j \<and> j < length clickSteps \<longrightarrow>
      \<not> fatal (stepOutcome foreignWorld exampleCase clickSteps ?c j)"
    using o by (simp add: fatal_def isCrossOriginWarning_def)
  have 8: "(1::nat) < length clickSteps \<and> (2::nat) < length clickSteps \<and> (0::nat) < 1 \<and> (0::nat) < 2"
    by (simp add: clickSteps_def)
  from cross_origin_failure_continues [OF 1 2 3 4 5 6] 1 2 3 4 5 6 7 8 show ?thesis by blast
qed

text \<open>
  C3 fails on the code. The same two steps are run twice on a page of the runner's own origin.
  The first run of a newly mounted component stops at the click, because the closure still
  holds no window. In the second run both steps pass and the loop runs to its end, but the
  request is built from the results of the closure, which are those of the first run: it
  reports the status \<^verbatim>\<open>failed\<close> and one failed step.
\<close>

theorem completion_status_from_stale_results:
  "map r_status (ui_results (afterFirstRun ownWorld submitSteps)) = [Passed, Failed] \<and>
   fst (runTest ownWorld exampleCase submitSteps (afterFirstRun ownWorld submitSteps)) = Returned \<and>
   map r_status (ui_results (fst (snd (runTest ownWorld exampleCase submitSteps
       (afterFirstRun ownWorld submitSteps)))))
     = [Passed, Passed] \<and>
   map x_status (posts (snd (snd (runTest ownWorld exampleCase submitSteps
       (afterFirstRun ownWorld submitSteps)))))
     = [''failed''] \<and>
   map x_failedSteps (posts (snd (snd (runTest ownWorld exampleCase submitSteps
       (afterFirstRun ownWorld submitSteps)))))
     = [1]"
  by (simp add: example_defs executeStep_defs runTest_defs)

text \<open>
  C4 fails on the code. With the window open and its page readable, a step of type
  \<^verbatim>\<open>assert\<close> reports success, and the same step with the type \<^verbatim>\<open>custom\<close> reaches the
  \<^verbatim>\<open>default\<close> branch of the \<^verbatim>\<open>switch\<close> and reports a failure, one that ends the run.
\<close>

theorem custom_step_is_unknown:
  "executeStep ownPage (Some 1) exampleCase
      (mkStep ''4'' ''assert'' None None None ''await page.reload()'') 3
     = (\<lparr>success = True, message = ''await page.reload()''\<rparr>, []) \<and>
   executeStep ownPage (Some 1) exampleCase
      (mkStep ''4'' ''custom'' None None None ''await page.reload()'') 3
     = (\<lparr>success = False, message = ''Unknown step type: custom''\<rparr>, []) \<and>
   fatal (fst (executeStep ownPage (Some 1) exampleCase
      (mkStep ''4'' ''custom'' None None None ''await page.reload()'') 3))"
  by (simp add: example_defs executeStep_defs fatal_def isCrossOriginWarning_def)

text \<open>
  C5 as stated fails. The first step waits and the second navigates. Each run navigates up
  front although the first step is no navigate step, and the second run, in which the closure
  holds the window, navigates to the same address again when the loop gets to the second step.
\<close>

theorem upfront_navigation_counterexample:
  "st_type (lateNavigateSteps ! 0) = ''waitForPageLoad'' \<and>
   navigations (snd (snd (runTest ownWorld exampleCase lateNavigateSteps freshState))) = [Setup] \<and>
   navigations (snd (snd (runTest ownWorld exampleCase lateNavigateSteps
       (afterFirstRun ownWorld lateNavigateSteps))))
     = [Setup, Step 1] \<and>
   LocationAssigned Setup 1 ''http://localhost:3000/dashboard''
     \<in> set (snd (snd (runTest ownWorld exampleCase lateNavigateSteps
         (afterFirstRun ownWorld lateNavigateSteps)))) \<and>
   LocationAssigned (Step 1) 1 ''http://localhost:3000/dashboard''
     \<in> set (snd (snd (runTest ownWorld exampleCase lateNavigateSteps
         (afterFirstRun ownWorld lateNavigateSteps))))"
  by (simp add: example_defs executeStep_defs runTest_defs)

theorem upfront_navigation_witness:
  "entersLoop ownWorld loginSteps \<and>
   isNavigateWithUrl (loginSteps ! 0) \<and>
   LocationAssigned Setup 1 ''http://localhost:3000/login''
     \<in> set (snd (snd (runTest ownWorld exampleCase loginSteps freshState))) \<and>
   (\<exists>rest. navigations (snd (snd (runTest ownWorld exampleCase loginSteps freshState)))
            = Setup # rest \<and>
           set rest \<subseteq> {Step j | j. 0 < j \<and> j < length loginSteps}) \<and>
   r_status (ui_results (fst (snd (runTest ownWorld exampleCase loginSteps freshState))) ! 0)
     = Passed \<and>
   \<not> isNavigateWithUrl (clickSteps ! 0) \<and>
   \<not> isNavigateWithUrl (clickSteps ! 1) \<and>
   \<not> isNavigateWithUrl (clickSteps ! 2) \<and>
   Setup \<notin> set (navigations (snd (snd (runTest ownWorld exampleCase clickSteps freshState))))"
proof -
  have 1: "entersLoop ownWorld loginSteps"
    by (simp add: notion_defs example_defs isNavigateWithUrl_def)
  have 2: "isNavigateWithUrl (loginSteps ! 0)"
    by (simp add: loginSteps_def mkStep_def isNavigateWithUrl_def)
  have 3: "\<forall>s \<in> set clickSteps. \<not> isNavigateWithUrl s"
    by (simp add: clickSteps_def mkStep_def isNavigateWithUrl_def)
  have u: "the (w_open ownWorld) = 1"
    "resolveUrl exampleCase (the (st_url (loginSteps ! 0))) = ''http://localhost:3000/login''"
    by (simp_all add: example_defs resolveUrl_def stripTrailingSlashes_def)
  have 4: "\<not> isNavigateWithUrl (clickSteps ! 0) \<and> \<not> isNavigateWithUrl (clickSteps ! 1) \<and>
      \<not> isNavigateWithUrl (clickSteps ! 2)"
    by (simp add: clickSteps_def mkStep_def isNavigateWithUrl_def)
  from upfront_navigation [of ownWorld loginSteps exampleCase freshState]
    upfront_navigation [of ownWorld clickSteps exampleCase freshState] 1 2 3 4 u
  show ?thesis by simp
qed

end
